theory Spec2Isabelle
  imports Complex_Main
begin

section \<open>Approximate Killing vector fields on meshes: the notebook \<open>AKVF.ipynb\<close>\<close>

text \<open>
  The notebook assembles a sparse least-squares system from the discrete gradient of a
  triangle mesh and from displacement constraints, hands it to \<open>scipy.sparse.linalg.lsqr\<close>
  and reshapes the answer. Floating-point numbers are idealised as real numbers. The
  library calls of the notebook (numpy arrays, scipy sparse matrices) are modelled by the
  functions of the first subsections, each one following the documented behaviour of the
  call it stands for; \<open>igl.grad\<close> and \<open>lsqr\<close> are not modelled: the gradient operator
  \<open>G\<close> and the solver are inputs of the model.
\<close>

subsection \<open>Errors\<close>

text \<open>The two Python exceptions that the library calls of the notebook can raise.\<close>

datatype error = ValueError | IndexError

fun collect :: "(error + 'a) list \<Rightarrow> error + 'a list" where
  "collect [] = Inr []"
| "collect (r # rs) =
     (case r of
        Inl e \<Rightarrow> Inl e
      | Inr y \<Rightarrow> (case collect rs of Inl e \<Rightarrow> Inl e | Inr ys \<Rightarrow> Inr (y # ys)))"

subsection \<open>numpy arrays\<close>

text \<open>
  A one-dimensional array is a list; a two-dimensional array is the list of its rows,
  all of the same length. \<open>order\<close> is numpy's \<open>order\<close> argument: \<open>C_order\<close> is row-major,
  \<open>F_order\<close> is column-major.
\<close>

datatype order = C_order | F_order

definition row_len :: "'a list list \<Rightarrow> nat" where
  "row_len a = (case a of [] \<Rightarrow> 0 | r # _ \<Rightarrow> length r)"

text \<open>\<open>a.flatten(order=...)\<close> of a two-dimensional array.\<close>

definition flatten :: "order \<Rightarrow> 'a list list \<Rightarrow> 'a list" where
  "flatten ord a =
     (case ord of
        C_order \<Rightarrow> concat a
      | F_order \<Rightarrow> concat (map (\<lambda>j. map (\<lambda>r. r ! j) a) [0..<row_len a]))"

text \<open>
  \<open>x.reshape((r, c), order=...)\<close> of a one-dimensional array: ValueError unless the
  sizes agree.
\<close>

definition reshape :: "'a list \<Rightarrow> nat \<times> nat \<Rightarrow> order \<Rightarrow> error + 'a list list" where
  "reshape xs shp ord =
     (case shp of (r, c) \<Rightarrow>
        if length xs \<noteq> r * c then Inl ValueError
        else Inr (map (\<lambda>i. map (\<lambda>j. case ord of
                                        C_order \<Rightarrow> xs ! (i * c + j)
                                      | F_order \<Rightarrow> xs ! (j * r + i)) [0..<c]) [0..<r]))"

text \<open>
  \<open>x.reshape(r, -1, order=...)\<close>: the second dimension is inferred as \<open>len(x) / r\<close>;
  numpy raises ValueError when \<open>r\<close> is 0 or does not divide the size.
\<close>

definition reshape_infer :: "'a list \<Rightarrow> nat \<Rightarrow> order \<Rightarrow> error + 'a list list" where
  "reshape_infer xs r ord =
     (if r = 0 \<or> length xs mod r \<noteq> 0 then Inl ValueError
      else reshape xs (r, length xs div r) ord)"

text \<open>\<open>np.zeros([n])\<close>, \<open>np.square\<close>, \<open>c * x\<close> and \<open>a.sum(-1)\<close>.\<close>

definition zeros :: "nat \<Rightarrow> real list" where
  "zeros n = replicate n 0"

definition square :: "real list \<Rightarrow> real list" where
  "square xs = map (\<lambda>t. t * t) xs"

definition scale_vec :: "real \<Rightarrow> real list \<Rightarrow> real list" where
  "scale_vec c xs = map (\<lambda>t. c * t) xs"

definition sum_last :: "real list list \<Rightarrow> real list" where
  "sum_last a = map sum_list a"

text \<open>
  \<open>a[idxs]\<close> with an integer index array selects rows; an index \<open>i\<close> with
  \<open>-len(a) \<le> i < 0\<close> counts from the end, any other index outside \<open>[0, len(a))\<close>
  raises IndexError.
\<close>

definition wrap_index :: "nat \<Rightarrow> int \<Rightarrow> nat" where
  "wrap_index n i = nat (if i < 0 then i + int n else i)"

definition norm_index :: "nat \<Rightarrow> int \<Rightarrow> error + nat" where
  "norm_index n i =
     (if i < - int n \<or> int n \<le> i then Inl IndexError else Inr (wrap_index n i))"

definition take_rows :: "'a list \<Rightarrow> int list \<Rightarrow> error + 'a list" where
  "take_rows a idxs =
     (case collect (map (norm_index (length a)) idxs) of
        Inl e \<Rightarrow> Inl e
      | Inr js \<Rightarrow> Inr (map (\<lambda>j. a ! j) js))"

subsection \<open>scipy sparse matrices\<close>

text \<open>
  A sparse matrix is its shape and its entries; the storage format plays no role in what
  the notebook computes. Only the entries inside the shape are part of the matrix:
  \<open>entry\<close> reads them and is 0 outside.
\<close>

record smat =
  nrows :: nat
  ncols :: nat
  ent :: "nat \<Rightarrow> nat \<Rightarrow> real"

definition entry :: "smat \<Rightarrow> nat \<Rightarrow> nat \<Rightarrow> real" where
  "entry M i j = (if i < nrows M \<and> j < ncols M then ent M i j else 0)"

text \<open>\<open>csr_matrix((k, n))\<close>: the empty matrix of that shape.\<close>

definition csr_matrix :: "nat \<times> nat \<Rightarrow> smat" where
  "csr_matrix shp = \<lparr>nrows = fst shp, ncols = snd shp, ent = (\<lambda>i j. 0)\<rparr>"

text \<open>\<open>M[i, j] = v\<close>, with the index rules of \<open>norm_index\<close> on both axes.\<close>

definition setitem :: "smat \<Rightarrow> int \<Rightarrow> int \<Rightarrow> real \<Rightarrow> error + smat" where
  "setitem M i j v =
     (case norm_index (nrows M) i of
        Inl e \<Rightarrow> Inl e
      | Inr r \<Rightarrow>
          (case norm_index (ncols M) j of
             Inl e \<Rightarrow> Inl e
           | Inr c \<Rightarrow> Inr (M\<lparr>ent := (\<lambda>i' j'. if i' = r \<and> j' = c then v else ent M i' j')\<rparr>)))"

text \<open>\<open>c * M\<close>.\<close>

definition scale :: "real \<Rightarrow> smat \<Rightarrow> smat" where
  "scale c M = M\<lparr>ent := (\<lambda>i j. c * ent M i j)\<rparr>"

text \<open>\<open>M[lo:hi]\<close>, a slice of rows; Python clamps both bounds to the number of rows.\<close>

definition row_slice :: "smat \<Rightarrow> nat \<Rightarrow> nat \<Rightarrow> smat" where
  "row_slice M lo hi =
     (let lo' = min lo (nrows M); hi' = min hi (nrows M)
      in \<lparr>nrows = hi' - lo', ncols = ncols M, ent = (\<lambda>i j. ent M (lo' + i) j)\<rparr>)"

text \<open>
  \<open>scipy.sparse.bmat(blocks)\<close>: a grid of blocks, \<open>None\<close> standing for a zero block.
  The height of a block row and the width of a block column are read off the blocks
  that are not \<open>None\<close>, scanning them in order: a length still 0 is overwritten, a length
  that disagrees raises ValueError. A grid that is empty or not rectangular is not a
  two-dimensional array of blocks, which is a ValueError too.
\<close>

fun scan_length :: "nat \<Rightarrow> nat list \<Rightarrow> error + nat" where
  "scan_length cur [] = Inr cur"
| "scan_length cur (d # ds) =
     (if cur = 0 then scan_length d ds
      else if cur \<noteq> d then Inl ValueError
      else scan_length cur ds)"

definition brow_length :: "smat option list \<Rightarrow> error + nat" where
  "brow_length bs = scan_length 0 (map nrows (List.map_filter id bs))"

definition bcol_length :: "smat option list list \<Rightarrow> nat \<Rightarrow> error + nat" where
  "bcol_length blocks j = scan_length 0 (map ncols (List.map_filter (\<lambda>bs. bs ! j) blocks))"

text \<open>The block that holds index \<open>i\<close>, and the offset of \<open>i\<close> inside it.\<close>

fun locate :: "nat list \<Rightarrow> nat \<Rightarrow> (nat \<times> nat) option" where
  "locate [] i = None"
| "locate (d # ds) i =
     (if i < d then Some (0, i)
      else (case locate ds (i - d) of None \<Rightarrow> None | Some (b, off) \<Rightarrow> Some (Suc b, off)))"

definition block_entry :: "smat option list list \<Rightarrow> nat list \<Rightarrow> nat list \<Rightarrow> nat \<Rightarrow> nat \<Rightarrow> real" where
  "block_entry blocks hs ws i j =
     (case locate hs i of
        None \<Rightarrow> 0
      | Some (bi, oi) \<Rightarrow>
          (case locate ws j of
             None \<Rightarrow> 0
           | Some (bj, oj) \<Rightarrow>
               (case blocks ! bi ! bj of None \<Rightarrow> 0 | Some B \<Rightarrow> entry B oi oj)))"

definition bmat :: "smat option list list \<Rightarrow> error + smat" where
  "bmat blocks =
     (if blocks = [] \<or> list_ex (\<lambda>bs. length bs \<noteq> length (hd blocks)) blocks then Inl ValueError
      else
        (case collect (map brow_length blocks) of
           Inl e \<Rightarrow> Inl e
         | Inr hs \<Rightarrow>
             (case collect (map (bcol_length blocks) [0..<length (hd blocks)]) of
                Inl e \<Rightarrow> Inl e
              | Inr ws \<Rightarrow>
                  Inr \<lparr>nrows = sum_list hs, ncols = sum_list ws,
                       ent = block_entry blocks hs ws\<rparr>)))"

text \<open>
  \<open>M @ x\<close> for a one-dimensional \<open>x\<close>: ValueError on a dimension mismatch. \<open>mv\<close> is the
  product itself.
\<close>

definition mv :: "smat \<Rightarrow> real list \<Rightarrow> real list" where
  "mv M xs = map (\<lambda>i. \<Sum>j<ncols M. entry M i j * xs ! j) [0..<nrows M]"

definition matvec :: "smat \<Rightarrow> real list \<Rightarrow> error + real list" where
  "matvec M xs = (if length xs \<noteq> ncols M then Inl ValueError else Inr (mv M xs))"

text \<open>
  The result tuple of \<open>scipy.sparse.linalg.lsqr\<close>: the iterate, the reason for stopping
  (\<open>istop = 7\<close>: the iteration limit was reached before the tolerances were met), the
  number of iterations and the residual norm. The further entries of the tuple are not
  read by the notebook.
\<close>

record lsqr_result =
  sol_x :: "real list"
  istop :: int
  itn :: nat
  r1norm :: real

type_synonym lsqr = "smat \<Rightarrow> real list \<Rightarrow> lsqr_result"

subsection \<open>The notebook\<close>

text \<open>\<open>Gx, Gy, Gz = G[:m], G[m:2*m], G[2*m:]\<close>\<close>

definition gradient_blocks :: "smat \<Rightarrow> nat \<Rightarrow> smat \<times> smat \<times> smat" where
  "gradient_blocks G m =
     (row_slice G 0 m, row_slice G m (2 * m), row_slice G (2 * m) (nrows G))"

text \<open>\<open>S = np.sqrt(2)\<close>\<close>

definition S :: real where
  "S = sqrt 2"

text \<open>The block literal of \<open>P\<close>, row by row as in the notebook.\<close>

definition killing_P :: "smat \<Rightarrow> smat \<Rightarrow> smat \<Rightarrow> error + smat" where
  "killing_P Gx Gy Gz = bmat
     [[Some (scale 2 Gx), None, None],
      [None, Some (scale 2 Gy), None],
      [None, None, Some (scale 2 Gz)],
      [Some (scale S Gy), Some (scale S Gx), None],
      [Some (scale S Gz), None, Some (scale S Gx)],
      [None, Some (scale S Gz), Some (scale S Gy)]]"

text \<open>
  \<open>I = csr_matrix((k, n)); for i, idx in enumerate(idxs): I[i, idx] = 1\<close>.
  The loop runs over the pairs of \<open>enumerate\<close> and stops at the first exception.
\<close>

fun set_ones :: "smat \<Rightarrow> (nat \<times> int) list \<Rightarrow> error + smat" where
  "set_ones M [] = Inr M"
| "set_ones M ((i, idx) # rest) =
     (case setitem M (int i) idx 1 of
        Inl e \<Rightarrow> Inl e
      | Inr M' \<Rightarrow> set_ones M' rest)"

definition constraint_I :: "nat \<Rightarrow> int list \<Rightarrow> error + smat" where
  "constraint_I n idxs = set_ones (csr_matrix (length idxs, n)) (enumerate 0 idxs)"

definition constraint_Ik :: "smat \<Rightarrow> error + smat" where
  "constraint_Ik I = bmat
     [[Some (scale 1 I), Some (scale 0 I), Some (scale 0 I)],
      [Some (scale 0 I), Some (scale 1 I), Some (scale 0 I)],
      [Some (scale 0 I), Some (scale 0 I), Some (scale 1 I)]]"

text \<open>
  The cell "Minimize via lstsq" up to the call of the solver: \<open>n\<close> is \<open>len(v)\<close>, \<open>dv\<close> the
  array of target displacements (one row per vertex) and \<open>lmbd\<close> the weight, which the
  notebook sets to \<open>1e2\<close>.
\<close>

definition lstsq_system ::
  "smat \<Rightarrow> nat \<Rightarrow> int list \<Rightarrow> real list list \<Rightarrow> real \<Rightarrow> error + (smat \<times> real list)" where
  "lstsq_system P n idxs dv lmbd =
     (case constraint_I n idxs of
        Inl e \<Rightarrow> Inl e
      | Inr I \<Rightarrow>
     (case constraint_Ik I of
        Inl e \<Rightarrow> Inl e
      | Inr Ik \<Rightarrow>
     (case bmat [[Some P], [Some (scale lmbd Ik)]] of
        Inl e \<Rightarrow> Inl e
      | Inr A \<Rightarrow>
     (case take_rows dv idxs of
        Inl e \<Rightarrow> Inl e
      | Inr targets \<Rightarrow>
          Inr (A, zeros (nrows P) @ scale_vec lmbd (flatten F_order targets))))))"

text \<open>\<open>sol = lsqr(A, b); du = sol[0].reshape(v.shape, order='F')\<close>\<close>

definition solve ::
  "lsqr \<Rightarrow> smat \<Rightarrow> nat \<Rightarrow> int list \<Rightarrow> real list list \<Rightarrow> real \<Rightarrow> error + real list list" where
  "solve solver P n idxs dv lmbd =
     (case lstsq_system P n idxs dv lmbd of
        Inl e \<Rightarrow> Inl e
      | Inr (A, b) \<Rightarrow> reshape (sol_x (solver A b)) (n, 3) F_order)"

text \<open>\<open>e_K = np.square(P@sol[0]).reshape(len(f), -1, order='F').sum(-1)\<close>\<close>

definition e_K :: "smat \<Rightarrow> real list \<Rightarrow> nat \<Rightarrow> error + real list" where
  "e_K P xs m =
     (case matvec P xs of
        Inl e \<Rightarrow> Inl e
      | Inr y \<Rightarrow>
          (case reshape_infer (square y) m F_order of
             Inl e \<Rightarrow> Inl e
           | Inr a \<Rightarrow> Inr (sum_last a)))"


subsection \<open>Least squares, constraint violation and rigid motions\<close>

text \<open>
  The notions the markdown cells of the notebook use to say what the cells compute. They
  are specifications, not code: the squared 2-norm, the residual \<open>A x - b\<close>, what it
  means for \<open>x\<close> to minimise \<open>\<parallel>A x - b\<parallel>\<close> and to have minimal norm among the minimisers.
\<close>

definition sqnorm :: "real list \<Rightarrow> real" where
  "sqnorm xs = sum_list (map (\<lambda>t. t * t) xs)"

definition residual :: "smat \<Rightarrow> real list \<Rightarrow> real list \<Rightarrow> real list" where
  "residual A b xs = map2 (\<lambda>s t. s - t) (mv A xs) b"

definition is_lsq :: "smat \<Rightarrow> real list \<Rightarrow> real list \<Rightarrow> bool" where
  "is_lsq A b xs \<longleftrightarrow>
     length xs = ncols A \<and>
     (\<forall>ys. length ys = ncols A \<longrightarrow> sqnorm (residual A b xs) \<le> sqnorm (residual A b ys))"

definition is_min_norm_lsq :: "smat \<Rightarrow> real list \<Rightarrow> real list \<Rightarrow> bool" where
  "is_min_norm_lsq A b xs \<longleftrightarrow>
     is_lsq A b xs \<and> (\<forall>ys. is_lsq A b ys \<longrightarrow> sqnorm xs \<le> sqnorm ys)"

text \<open>
  The constraint violation \<open>E_C(U) = \<Sum> \<parallel>U(p_i) - u_i\<parallel>\<^sup>2\<close> of the notebook, over the
  constrained vertices \<open>idxs\<close> as the notebook lists them, with targets \<open>dv[idxs]\<close>.
\<close>

definition constraint_violation :: "int list \<Rightarrow> real list list \<Rightarrow> real list list \<Rightarrow> real" where
  "constraint_violation idxs dv du =
     (\<Sum>idx\<leftarrow>idxs. \<Sum>c\<leftarrow>[0..<3].
        (du ! nat idx ! c - dv ! nat idx ! c) * (du ! nat idx ! c - dv ! nat idx ! c))"

text \<open>
  The six-dimensional space of infinitesimal rigid motions of the vertices \<open>v\<close>: a
  translation \<open>t\<close> plus a rotation \<open>w \<times> p\<close> at every vertex \<open>p\<close>.
\<close>

definition rigid_field :: "real list \<Rightarrow> real list \<Rightarrow> real list list \<Rightarrow> real list list" where
  "rigid_field t w v =
     map (\<lambda>p. [t ! 0 + (w ! 1 * p ! 2 - w ! 2 * p ! 1),
               t ! 1 + (w ! 2 * p ! 0 - w ! 0 * p ! 2),
               t ! 2 + (w ! 0 * p ! 1 - w ! 1 * p ! 0)]) v"

definition rigid_motion :: "real list list \<Rightarrow> real list list \<Rightarrow> bool" where
  "rigid_motion v du \<longleftrightarrow> (\<exists>t w. length t = 3 \<and> length w = 3 \<and> du = rigid_field t w v)"

section \<open>Flattening and reshaping\<close>

lemma mult_index_bound: "j < c \<Longrightarrow> i < n \<Longrightarrow> j * n + i < c * (n::nat)"
proof -
  assume a: "j < c" "i < n"
  then have "Suc j * n \<le> c * n" by (intro mult_le_mono1) simp
  with a show ?thesis by simp
qed

lemma length_concat_blocks:
  "(\<And>j. j < c \<Longrightarrow> length (f j) = n) \<Longrightarrow> length (concat (map f [0..<c])) = c * n"
  by (induction c) simp_all

lemma concat_blocks_nth:
  "(\<And>j. j < c \<Longrightarrow> length (f j) = n) \<Longrightarrow> j < c \<Longrightarrow> i < n
   \<Longrightarrow> concat (map f [0..<c]) ! (j * n + i) = f j ! i"
proof (induction c)
  case 0
  then show ?case by simp
next
  case (Suc c)
  have len: "length (concat (map f [0..<c])) = c * n"
    using Suc.prems(1) by (intro length_concat_blocks) simp
  show ?case
  proof (cases "j < c")
    case True
    then have "j * n + i < c * n" using Suc.prems(3) by (rule mult_index_bound)
    then show ?thesis using Suc True len by (simp add: nth_append)
  next
    case False
    then have "j = c" using Suc.prems(2) by simp
    then show ?thesis using len by (simp add: nth_append)
  qed
qed

lemma row_len_rect: "\<forall>r \<in> set a. length r = c \<Longrightarrow> a \<noteq> [] \<Longrightarrow> row_len a = c"
  by (cases a) (simp_all add: row_len_def)

lemma length_flatten_F:
  "\<forall>r \<in> set a. length r = c \<Longrightarrow> length (flatten F_order a) = c * length a"
proof (cases "a = []")
  case True
  then show ?thesis by (simp add: flatten_def row_len_def)
next
  case False
  assume "\<forall>r \<in> set a. length r = c"
  then have "row_len a = c" using False by (rule row_len_rect)
  then show ?thesis
    by (simp add: flatten_def length_concat_blocks [where n = "length a"])
qed

lemma flatten_F_nth:
  assumes "\<forall>r \<in> set a. length r = c" "i < length a" "j < c"
  shows "flatten F_order a ! (j * length a + i) = a ! i ! j"
proof -
  from assms have "a \<noteq> []" by auto
  with assms(1) have "row_len a = c" by (rule row_len_rect)
  then show ?thesis
    using assms(2,3)
    by (simp add: flatten_def concat_blocks_nth [where n = "length a"])
qed

lemma reshape_F:
  "length xs = n * c \<Longrightarrow>
   reshape xs (n, c) F_order = Inr (map (\<lambda>i. map (\<lambda>j. xs ! (j * n + i)) [0..<c]) [0..<n])"
  by (simp add: reshape_def)

lemma reshape_flatten_F:
  assumes "\<forall>r \<in> set a. length r = c"
  shows "reshape (flatten F_order a) (length a, c) F_order = Inr a"
proof -
  let ?b = "map (\<lambda>i. map (\<lambda>j. flatten F_order a ! (j * length a + i)) [0..<c]) [0..<length a]"
  have len: "length (flatten F_order a) = length a * c"
    using length_flatten_F [OF assms] by (simp add: mult.commute)
  have "?b = a"
  proof (rule nth_equalityI)
    show "length ?b = length a" by simp
  next
    fix i
    assume "i < length ?b"
    then have i: "i < length a" by simp
    then have li: "length (a ! i) = c" using assms by simp
    have "map (\<lambda>j. flatten F_order a ! (j * length a + i)) [0..<c] = a ! i"
      by (rule nth_equalityI) (simp_all add: li flatten_F_nth [OF assms i])
    then show "?b ! i = a ! i" using i by simp
  qed
  then show ?thesis using len by (simp add: reshape_def)
qed

lemma upt_3: "[0..<3] = [0, 1, 2]"
  by (simp add: upt_rec)




section \<open>Block matrices\<close>

lemma locate_replicate:
  "b < k \<Longrightarrow> i < d \<Longrightarrow> locate (replicate k d) (b * d + i) = Some (b, i)"
proof (induction k arbitrary: b)
  case 0
  then show ?case by simp
next
  case (Suc k)
  show ?case
  proof (cases b)
    case 0
    then show ?thesis using Suc.prems by simp
  next
    case (Suc b')
    then have "locate (replicate k d) (b' * d + i) = Some (b', i)"
      using Suc.IH [of b'] Suc.prems by simp
    then show ?thesis using Suc by simp
  qed
qed

lemma block_entry_uniform:
  "b < R \<Longrightarrow> c < C \<Longrightarrow> i < h \<Longrightarrow> j < w \<Longrightarrow>
   block_entry blocks (replicate R h) (replicate C w) (b * h + i) (c * w + j)
     = (case blocks ! b ! c of None \<Rightarrow> 0 | Some B \<Rightarrow> entry B i j)"
  by (simp add: block_entry_def locate_replicate)

lemma entry_scale [simp]: "entry (scale c M) i j = c * entry M i j"
  by (simp add: entry_def scale_def)

lemma nrows_scale [simp]: "nrows (scale c M) = nrows M"
  and ncols_scale [simp]: "ncols (scale c M) = ncols M"
  by (simp_all add: scale_def)

subsection \<open>The gradient blocks\<close>

lemma gradient_blocks_shape:
  assumes "nrows G = 3 * m" "ncols G = n" "gradient_blocks G m = (Gx, Gy, Gz)"
  shows "nrows Gx = m" "ncols Gx = n" "nrows Gy = m" "ncols Gy = n" "nrows Gz = m" "ncols Gz = n"
  using assms by (auto simp add: gradient_blocks_def row_slice_def)

lemma gradient_blocks_entry:
  assumes "nrows G = 3 * m" "ncols G = n" "gradient_blocks G m = (Gx, Gy, Gz)" "i < m" "j < n"
  shows "entry Gx i j = entry G i j"
    and "entry Gy i j = entry G (m + i) j"
    and "entry Gz i j = entry G (2 * m + i) j"
  using assms by (auto simp add: gradient_blocks_def row_slice_def entry_def)

subsection \<open>The Killing-energy operator\<close>

lemma killing_P_value:
  assumes "nrows Gx = m" "ncols Gx = n" "nrows Gy = m" "ncols Gy = n" "nrows Gz = m" "ncols Gz = n"
  shows "killing_P Gx Gy Gz = Inr \<lparr>nrows = 6 * m, ncols = 3 * n,
     ent = block_entry
     [[Some (scale 2 Gx), None, None],
      [None, Some (scale 2 Gy), None],
      [None, None, Some (scale 2 Gz)],
      [Some (scale S Gy), Some (scale S Gx), None],
      [Some (scale S Gz), None, Some (scale S Gx)],
      [None, Some (scale S Gz), Some (scale S Gy)]] (replicate 6 m) (replicate 3 n)\<rparr>"
  using assms
  by (simp add: killing_P_def bmat_def brow_length_def bcol_length_def map_filter_simps
      eval_nat_numeral upt_rec)

lemma killing_P_shape:
  assumes "nrows Gx = m" "ncols Gx = n" "nrows Gy = m" "ncols Gy = n" "nrows Gz = m" "ncols Gz = n"
    and "killing_P Gx Gy Gz = Inr P"
  shows "nrows P = 6 * m" and "ncols P = 3 * n"
  using assms(7) unfolding killing_P_value [OF assms(1-6)] by auto

lemma killing_P_entry:
  assumes G: "nrows Gx = m" "ncols Gx = n" "nrows Gy = m" "ncols Gy = n" "nrows Gz = m" "ncols Gz = n"
    and P: "killing_P Gx Gy Gz = Inr P"
    and b: "b < 6" "c < 3" "i < m" "j < n"
  shows "entry P (b * m + i) (c * n + j)
    = (case [[Some (scale 2 Gx), None, None],
      [None, Some (scale 2 Gy), None],
      [None, None, Some (scale 2 Gz)],
      [Some (scale S Gy), Some (scale S Gx), None],
      [Some (scale S Gz), None, Some (scale S Gx)],
      [None, Some (scale S Gz), Some (scale S Gy)]] ! b ! c of None \<Rightarrow> 0 | Some B \<Rightarrow> entry B i j)"
proof -
  have r: "b * m + i < 6 * m" using b by (intro mult_index_bound)
  have c: "c * n + j < 3 * n" using b by (intro mult_index_bound)
  show ?thesis
    using P r c b unfolding killing_P_value [OF G]
    by (auto simp add: entry_def [of "\<lparr>nrows = _, ncols = _, ent = _\<rparr>"] block_entry_uniform)
qed

text \<open>
  Claim C1. For gradient blocks \<open>Gx\<close>, \<open>Gy\<close>, \<open>Gz\<close> of shape \<open>m \<times> n\<close> the block literal
  is accepted, \<open>P\<close> has shape \<open>6m \<times> 3n\<close>, and its eighteen blocks are, row block by row
  block: \<open>[2 Gx, 0, 0]\<close>, \<open>[0, 2 Gy, 0]\<close>, \<open>[0, 0, 2 Gz]\<close>, \<open>[\<surd>2 Gy, \<surd>2 Gx, 0]\<close>,
  \<open>[\<surd>2 Gz, 0, \<surd>2 Gx]\<close>, \<open>[0, \<surd>2 Gz, \<surd>2 Gy]\<close>. Row \<open>b * m + i\<close> is row \<open>i\<close> of row block
  \<open>b\<close>, column \<open>c * n + j\<close> is column \<open>j\<close> of column block \<open>c\<close>.
\<close>

theorem killing_P_blocks:
  assumes G: "nrows Gx = m" "ncols Gx = n" "nrows Gy = m" "ncols Gy = n" "nrows Gz = m" "ncols Gz = n"
  shows "\<exists>P. killing_P Gx Gy Gz = Inr P \<and> nrows P = 6 * m \<and> ncols P = 3 * n \<and>
    (\<forall>i < m. \<forall>j < n.
        entry P i j = 2 * entry Gx i j
      \<and> entry P i (n + j) = 0
      \<and> entry P i (2 * n + j) = 0
      \<and> entry P (m + i) j = 0
      \<and> entry P (m + i) (n + j) = 2 * entry Gy i j
      \<and> entry P (m + i) (2 * n + j) = 0
      \<and> entry P (2 * m + i) j = 0
      \<and> entry P (2 * m + i) (n + j) = 0
      \<and> entry P (2 * m + i) (2 * n + j) = 2 * entry Gz i j
      \<and> entry P (3 * m + i) j = sqrt 2 * entry Gy i j
      \<and> entry P (3 * m + i) (n + j) = sqrt 2 * entry Gx i j
      \<and> entry P (3 * m + i) (2 * n + j) = 0
      \<and> entry P (4 * m + i) j = sqrt 2 * entry Gz i j
      \<and> entry P (4 * m + i) (n + j) = 0
      \<and> entry P (4 * m + i) (2 * n + j) = sqrt 2 * entry Gx i j
      \<and> entry P (5 * m + i) j = 0
      \<and> entry P (5 * m + i) (n + j) = sqrt 2 * entry Gz i j
      \<and> entry P (5 * m + i) (2 * n + j) = sqrt 2 * entry Gy i j)"
proof -
  obtain P where P: "killing_P Gx Gy Gz = Inr P" and d: "nrows P = 6 * m" "ncols P = 3 * n"
    using killing_P_value [OF G] by simp
  note e = killing_P_entry [OF G P]
  have "entry P i j = 2 * entry Gx i j
      \<and> entry P i (n + j) = 0
      \<and> entry P i (2 * n + j) = 0
      \<and> entry P (m + i) j = 0
      \<and> entry P (m + i) (n + j) = 2 * entry Gy i j
      \<and> entry P (m + i) (2 * n + j) = 0
      \<and> entry P (2 * m + i) j = 0
      \<and> entry P (2 * m + i) (n + j) = 0
      \<and> entry P (2 * m + i) (2 * n + j) = 2 * entry Gz i j
      \<and> entry P (3 * m + i) j = sqrt 2 * entry Gy i j
      \<and> entry P (3 * m + i) (n + j) = sqrt 2 * entry Gx i j
      \<and> entry P (3 * m + i) (2 * n + j) = 0
      \<and> entry P (4 * m + i) j = sqrt 2 * entry Gz i j
      \<and> entry P (4 * m + i) (n + j) = 0
      \<and> entry P (4 * m + i) (2 * n + j) = sqrt 2 * entry Gx i j
      \<and> entry P (5 * m + i) j = 0
      \<and> entry P (5 * m + i) (n + j) = sqrt 2 * entry Gz i j
      \<and> entry P (5 * m + i) (2 * n + j) = sqrt 2 * entry Gy i j" if ij: "i < m" "j < n" for i j
    using e [of 0 0 i j] e [of 0 1 i j] e [of 0 2 i j]
      e [of 1 0 i j] e [of 1 1 i j] e [of 1 2 i j]
      e [of 2 0 i j] e [of 2 1 i j] e [of 2 2 i j]
      e [of 3 0 i j] e [of 3 1 i j] e [of 3 2 i j]
      e [of 4 0 i j] e [of 4 1 i j] e [of 4 2 i j]
      e [of 5 0 i j] e [of 5 1 i j] e [of 5 2 i j] ij
    by (simp add: S_def)
  with P d show ?thesis by blast
qed

theorem killing_P_blocks_witness:
  "\<exists>Gx Gy Gz P.
       gradient_blocks \<lparr>nrows = 3, ncols = 1, ent = (\<lambda>i j. 3 + 2 * real i)\<rparr> 1 = (Gx, Gy, Gz)
     \<and> killing_P Gx Gy Gz = Inr P
     \<and> nrows P = 6 \<and> ncols P = 3
     \<and> entry P 0 0 = 6 \<and> entry P 0 1 = 0 \<and> entry P 0 2 = 0
     \<and> entry P 3 0 = sqrt 2 * 5 \<and> entry P 3 1 = sqrt 2 * 3 \<and> entry P 3 2 = 0
     \<and> entry P 5 0 = 0 \<and> entry P 5 1 = sqrt 2 * 7 \<and> entry P 5 2 = sqrt 2 * 5"
proof -
  let ?G = "\<lparr>nrows = 3, ncols = 1, ent = (\<lambda>i j. 3 + 2 * real i)\<rparr>"
  obtain Gx Gy Gz where g: "gradient_blocks ?G 1 = (Gx, Gy, Gz)"
    by (cases "gradient_blocks ?G 1") auto
  have G: "nrows ?G = 3 * 1" "ncols ?G = 1" by simp_all
  note s = gradient_blocks_shape [OF G g]
  have e: "entry Gx 0 0 = 3" "entry Gy 0 0 = 5" "entry Gz 0 0 = 7"
    using gradient_blocks_entry [OF G g, of 0 0]
    by (simp_all add: entry_def [of "\<lparr>nrows = _, ncols = _, ent = _\<rparr>"])
  from killing_P_blocks [OF s]
  obtain P where P: "killing_P Gx Gy Gz = Inr P" "nrows P = 6 * 1" "ncols P = 3 * 1"
    and b: "\<forall>i < 1. \<forall>j < 1.
        entry P i j = 2 * entry Gx i j
      \<and> entry P i (1 + j) = 0
      \<and> entry P i (2 * 1 + j) = 0
      \<and> entry P (1 + i) j = 0
      \<and> entry P (1 + i) (1 + j) = 2 * entry Gy i j
      \<and> entry P (1 + i) (2 * 1 + j) = 0
      \<and> entry P (2 * 1 + i) j = 0
      \<and> entry P (2 * 1 + i) (1 + j) = 0
      \<and> entry P (2 * 1 + i) (2 * 1 + j) = 2 * entry Gz i j
      \<and> entry P (3 * 1 + i) j = sqrt 2 * entry Gy i j
      \<and> entry P (3 * 1 + i) (1 + j) = sqrt 2 * entry Gx i j
      \<and> entry P (3 * 1 + i) (2 * 1 + j) = 0
      \<and> entry P (4 * 1 + i) j = sqrt 2 * entry Gz i j
      \<and> entry P (4 * 1 + i) (1 + j) = 0
      \<and> entry P (4 * 1 + i) (2 * 1 + j) = sqrt 2 * entry Gx i j
      \<and> entry P (5 * 1 + i) j = 0
      \<and> entry P (5 * 1 + i) (1 + j) = sqrt 2 * entry Gz i j
      \<and> entry P (5 * 1 + i) (2 * 1 + j) = sqrt 2 * entry Gy i j"
    by blast
  from b [rule_format, of 0 0] e P g show ?thesis by simp
qed

subsection \<open>The constraint operator\<close>

lemma norm_index_ok:
  "- int n \<le> i \<Longrightarrow> i < int n \<Longrightarrow> norm_index n i = Inr (wrap_index n i)"
  by (simp add: norm_index_def)

lemma norm_index_bad:
  "i < - int n \<or> int n \<le> i \<Longrightarrow> norm_index n i = Inl IndexError"
  by (simp add: norm_index_def)

lemma wrap_index_nat: "0 \<le> i \<Longrightarrow> wrap_index n i = nat i"
  by (simp add: wrap_index_def)

lemma wrap_index_less: "- int n \<le> i \<Longrightarrow> i < int n \<Longrightarrow> wrap_index n i < n"
  by (auto simp add: wrap_index_def)

lemma set_ones_ok:
  assumes "\<forall>idx \<in> set idxs. - int (ncols M) \<le> idx \<and> idx < int (ncols M)"
    and "s + length idxs \<le> nrows M"
  shows "\<exists>M'. set_ones M (enumerate s idxs) = Inr M' \<and> nrows M' = nrows M \<and> ncols M' = ncols M
    \<and> (\<forall>i j. ent M' i j =
          (if s \<le> i \<and> i < s + length idxs \<and> j = wrap_index (ncols M) (idxs ! (i - s)) then 1
           else ent M i j))"
  using assms
proof (induction idxs arbitrary: M s)
  case Nil
  then show ?case by simp
next
  case (Cons idx idxs)
  let ?M1 = "M\<lparr>ent := (\<lambda>i' j'. if i' = s \<and> j' = wrap_index (ncols M) idx then 1 else ent M i' j')\<rparr>"
  have row: "norm_index (nrows M) (int s) = Inr s"
    using Cons.prems(2) by (simp add: norm_index_def wrap_index_def)
  have col: "norm_index (ncols M) idx = Inr (wrap_index (ncols M) idx)"
    using Cons.prems(1) by (simp add: norm_index_def)
  have step: "setitem M (int s) idx 1 = Inr ?M1"
    by (simp add: setitem_def row col)
  have "\<forall>idx \<in> set idxs. - int (ncols ?M1) \<le> idx \<and> idx < int (ncols ?M1)"
    using Cons.prems(1) by simp
  moreover have "Suc s + length idxs \<le> nrows ?M1"
    using Cons.prems(2) by simp
  ultimately obtain M' where M': "set_ones ?M1 (enumerate (Suc s) idxs) = Inr M'"
    "nrows M' = nrows ?M1" "ncols M' = ncols ?M1"
    "\<forall>i j. ent M' i j =
          (if Suc s \<le> i \<and> i < Suc s + length idxs \<and> j = wrap_index (ncols ?M1) (idxs ! (i - Suc s)) then 1
           else ent ?M1 i j)"
    using Cons.IH [of ?M1 "Suc s"] by blast
  have "ent M' i j =
          (if s \<le> i \<and> i < s + length (idx # idxs) \<and> j = wrap_index (ncols M) ((idx # idxs) ! (i - s)) then 1
           else ent M i j)" for i j
  proof (cases "i = s")
    case True
    then show ?thesis using M'(4) by simp
  next
    case False
    then have "s \<le> i \<Longrightarrow> (idx # idxs) ! (i - s) = idxs ! (i - Suc s)"
      by (simp add: nth_Cons')
    then show ?thesis using M'(4) False by auto
  qed
  then show ?case using M'(1-3) step by simp
qed

lemma set_ones_bad:
  assumes "\<exists>idx \<in> set idxs. idx < - int (ncols M) \<or> int (ncols M) \<le> idx"
    and "s + length idxs \<le> nrows M"
  shows "set_ones M (enumerate s idxs) = Inl IndexError"
  using assms
proof (induction idxs arbitrary: M s)
  case Nil
  then show ?case by simp
next
  case (Cons idx idxs)
  have row: "norm_index (nrows M) (int s) = Inr s"
    using Cons.prems(2) by (simp add: norm_index_def wrap_index_def)
  show ?case
  proof (cases "idx < - int (ncols M) \<or> int (ncols M) \<le> idx")
    case True
    then have "norm_index (ncols M) idx = Inl IndexError" by (rule norm_index_bad)
    then show ?thesis by (simp add: setitem_def row)
  next
    case False
    let ?M1 = "M\<lparr>ent := (\<lambda>i' j'. if i' = s \<and> j' = wrap_index (ncols M) idx then 1 else ent M i' j')\<rparr>"
    have col: "norm_index (ncols M) idx = Inr (wrap_index (ncols M) idx)"
      using False by (simp add: norm_index_def)
    have step: "setitem M (int s) idx 1 = Inr ?M1"
      by (simp add: setitem_def row col)
    have "\<exists>idx \<in> set idxs. idx < - int (ncols ?M1) \<or> int (ncols ?M1) \<le> idx"
      using Cons.prems(1) False by auto
    moreover have "Suc s + length idxs \<le> nrows ?M1" using Cons.prems(2) by simp
    ultimately have "set_ones ?M1 (enumerate (Suc s) idxs) = Inl IndexError"
      by (rule Cons.IH)
    then show ?thesis using step by simp
  qed
qed

lemma constraint_I_ok:
  assumes "\<forall>idx \<in> set idxs. - int n \<le> idx \<and> idx < int n"
  shows "\<exists>I. constraint_I n idxs = Inr I \<and> nrows I = length idxs \<and> ncols I = n
    \<and> (\<forall>i < length idxs. \<forall>j < n. entry I i j = (if j = wrap_index n (idxs ! i) then 1 else 0))"
proof -
  let ?Z = "csr_matrix (length idxs, n)"
  have "\<forall>idx \<in> set idxs. - int (ncols ?Z) \<le> idx \<and> idx < int (ncols ?Z)"
    using assms by (simp add: csr_matrix_def)
  moreover have "0 + length idxs \<le> nrows ?Z" by (simp add: csr_matrix_def)
  ultimately obtain I where "set_ones ?Z (enumerate 0 idxs) = Inr I" "nrows I = nrows ?Z" "ncols I = ncols ?Z"
    "\<forall>i j. ent I i j =
          (if 0 \<le> i \<and> i < 0 + length idxs \<and> j = wrap_index (ncols ?Z) (idxs ! (i - 0)) then 1
           else ent ?Z i j)"
    using set_ones_ok [of idxs ?Z 0] by blast
  then show ?thesis
    by (auto simp add: constraint_I_def csr_matrix_def entry_def)
qed

lemma constraint_I_bad:
  assumes "\<exists>idx \<in> set idxs. idx < - int n \<or> int n \<le> idx"
  shows "constraint_I n idxs = Inl IndexError"
  unfolding constraint_I_def
  using assms by (intro set_ones_bad) (simp_all add: csr_matrix_def)

lemma constraint_Ik_value:
  assumes "nrows I = k" "ncols I = n"
  shows "constraint_Ik I = Inr \<lparr>nrows = 3 * k, ncols = 3 * n,
     ent = block_entry
     [[Some (scale 1 I), Some (scale 0 I), Some (scale 0 I)],
      [Some (scale 0 I), Some (scale 1 I), Some (scale 0 I)],
      [Some (scale 0 I), Some (scale 0 I), Some (scale 1 I)]] (replicate 3 k) (replicate 3 n)\<rparr>"
  using assms
  by (simp add: constraint_Ik_def bmat_def brow_length_def bcol_length_def map_filter_simps
      eval_nat_numeral upt_rec)

lemma constraint_Ik_entry:
  assumes I: "nrows I = k" "ncols I = n"
    and Ik: "constraint_Ik I = Inr Ik"
    and b: "b < 3" "c < 3" "i < k" "j < n"
  shows "entry Ik (b * k + i) (c * n + j) = (if b = c then entry I i j else 0)"
proof -
  have r: "b * k + i < 3 * k" using b by (intro mult_index_bound)
  have c: "c * n + j < 3 * n" using b by (intro mult_index_bound)
  have e: "entry Ik (b * k + i) (c * n + j)
    = (case [[Some (scale 1 I), Some (scale 0 I), Some (scale 0 I)],
      [Some (scale 0 I), Some (scale 1 I), Some (scale 0 I)],
      [Some (scale 0 I), Some (scale 0 I), Some (scale 1 I)]] ! b ! c
       of None \<Rightarrow> 0 | Some B \<Rightarrow> entry B i j)"
    using Ik r c b unfolding constraint_Ik_value [OF I]
    by (auto simp add: entry_def [of "\<lparr>nrows = _, ncols = _, ent = _\<rparr>"] block_entry_uniform)
  have "b = 0 \<or> b = 1 \<or> b = 2" "c = 0 \<or> c = 1 \<or> c = 2" using b by auto
  then show ?thesis unfolding e by auto
qed


text \<open>
  Claim C4. For \<open>k\<close> constrained vertex ids in \<open>[0, n)\<close>, taken in the order given,
  \<open>Ik\<close> has shape \<open>3k \<times> 3n\<close>. Its block in row block \<open>b\<close> and column block \<open>c\<close> is zero
  off the diagonal, and on the diagonal the same \<open>k \<times> n\<close> selection matrix three times:
  row \<open>i\<close> has a 1 at the column of the \<open>i\<close>-th id and 0 elsewhere. The rows follow the
  positions of the list, not the ids, so an id listed twice gives two rows.
\<close>

theorem constraint_Ik_selection:
  assumes "\<forall>idx \<in> set idxs. 0 \<le> idx \<and> idx < int n"
  shows "\<exists>I Ik. constraint_I n idxs = Inr I \<and> constraint_Ik I = Inr Ik
     \<and> nrows Ik = 3 * length idxs \<and> ncols Ik = 3 * n
     \<and> (\<forall>b < 3. \<forall>c < 3. \<forall>i < length idxs. \<forall>j < n.
          entry Ik (b * length idxs + i) (c * n + j)
            = (if b = c \<and> int j = idxs ! i then 1 else 0))"
proof -
  have "\<forall>idx \<in> set idxs. - int n \<le> idx \<and> idx < int n" using assms by auto
  then obtain I where I: "constraint_I n idxs = Inr I" "nrows I = length idxs" "ncols I = n"
    and eI: "\<forall>i < length idxs. \<forall>j < n. entry I i j = (if j = wrap_index n (idxs ! i) then 1 else 0)"
    using constraint_I_ok [of idxs n] by blast
  obtain Ik where Ik: "constraint_Ik I = Inr Ik" and d: "nrows Ik = 3 * length idxs" "ncols Ik = 3 * n"
    using constraint_Ik_value [OF I(2,3)] by simp
  have "entry Ik (b * length idxs + i) (c * n + j) = (if b = c \<and> int j = idxs ! i then 1 else 0)"
    if "b < 3" "c < 3" "i < length idxs" "j < n" for b c i j
  proof -
    have "0 \<le> idxs ! i" using assms that(3) by simp
    then have "j = wrap_index n (idxs ! i) \<longleftrightarrow> int j = idxs ! i"
      by (auto simp add: wrap_index_def)
    then show ?thesis
      using constraint_Ik_entry [OF I(2,3) Ik that] eI that by simp
  qed
  with I(1) Ik d show ?thesis by blast
qed

theorem constraint_Ik_selection_witness:
  "\<exists>I Ik. constraint_I 2 [1, 1] = Inr I \<and> constraint_Ik I = Inr Ik
     \<and> nrows Ik = 6 \<and> ncols Ik = 6
     \<and> entry Ik 0 1 = 1 \<and> entry Ik 1 1 = 1 \<and> entry Ik 0 0 = 0
     \<and> entry Ik 2 3 = 1 \<and> entry Ik 2 1 = 0 \<and> entry Ik 5 5 = 1"
proof -
  have p: "\<forall>idx \<in> set [1, 1 :: int]. 0 \<le> idx \<and> idx < int 2" by simp
  from constraint_Ik_selection [OF p]
  obtain I Ik where a: "constraint_I 2 [1, 1] = Inr I" "constraint_Ik I = Inr Ik"
    and d: "nrows Ik = 3 * length [1, 1 :: int]" "ncols Ik = 3 * 2"
    and h: "\<forall>b < 3. \<forall>c < 3. \<forall>i < length [1, 1 :: int]. \<forall>j < 2.
          entry Ik (b * length [1, 1 :: int] + i) (c * 2 + j)
            = (if b = c \<and> int j = [1, 1] ! i then 1 else 0)"
    by blast
  have len: "length [1, 1 :: int] = 2" by simp
  note e = h [rule_format, unfolded len]
  have "nrows Ik = 6" "ncols Ik = 6" using d by simp_all
  moreover  have "entry Ik 0 1 = 1" using e [of 0 0 0 1] by simp
  moreover have "entry Ik 1 1 = 1" using e [of 0 0 1 1] by simp
  moreover have "entry Ik 0 0 = 0" using e [of 0 0 0 0] by simp
  moreover have "entry Ik 2 3 = 1" using e [of 1 1 0 1] by simp
  moreover have "entry Ik 2 1 = 0" using e [of 1 0 0 1] by simp
  moreover have "entry Ik 5 5 = 1" using e [of 2 2 1 1] by simp
  ultimately show ?thesis using a by blast
qed

subsection \<open>The stacked system\<close>

lemma stack_value:
  assumes "ncols P = w" "ncols L = w"
  shows "bmat [[Some P], [Some L]] = Inr \<lparr>nrows = nrows P + nrows L, ncols = w,
     ent = block_entry [[Some P], [Some L]] [nrows P, nrows L] [w]\<rparr>"
  using assms
  by (simp add: bmat_def brow_length_def bcol_length_def map_filter_simps)

lemma stack_entry:
  assumes "ncols P = w" "ncols L = w" "bmat [[Some P], [Some L]] = Inr A"
  shows "entry A i j = (if i < nrows P then entry P i j else entry L (i - nrows P) j)"
  using assms(3) unfolding stack_value [OF assms(1,2)]
  by (auto simp add: entry_def block_entry_def assms(1,2))

lemma collect_map_ok:
  "(\<And>x. x \<in> set xs \<Longrightarrow> f x = Inr (g x)) \<Longrightarrow> collect (map f xs) = Inr (map g xs)"
  by (induction xs) simp_all

lemma take_rows_ok:
  assumes "\<forall>idx \<in> set idxs. - int (length a) \<le> idx \<and> idx < int (length a)"
  shows "take_rows a idxs = Inr (map (\<lambda>idx. a ! wrap_index (length a) idx) idxs)"
proof -
  have "collect (map (norm_index (length a)) idxs) = Inr (map (wrap_index (length a)) idxs)"
    using assms by (intro collect_map_ok norm_index_ok) auto
  then show ?thesis by (simp add: take_rows_def comp_def)
qed

lemma lstsq_system_value:
  assumes P: "ncols P = 3 * n"
    and idxs: "\<forall>idx \<in> set idxs. - int n \<le> idx \<and> idx < int n"
    and dv: "length dv = n"
    and I: "constraint_I n idxs = Inr I" and Ik: "constraint_Ik I = Inr Ik"
  shows "\<exists>A. lstsq_system P n idxs dv lmbd
       = Inr (A, zeros (nrows P)
                 @ scale_vec lmbd (flatten F_order (map (\<lambda>idx. dv ! wrap_index n idx) idxs)))
     \<and> bmat [[Some P], [Some (scale lmbd Ik)]] = Inr A
     \<and> nrows A = nrows P + 3 * length idxs \<and> ncols A = 3 * n"
proof -
  obtain I' where I': "constraint_I n idxs = Inr I'" "nrows I' = length idxs" "ncols I' = n"
    using constraint_I_ok [OF idxs] by blast
  with I have sI: "nrows I = length idxs" "ncols I = n" by simp_all
  have sIk: "nrows Ik = 3 * length idxs" "ncols Ik = 3 * n"
    using Ik unfolding constraint_Ik_value [OF sI] by auto
  have c: "ncols (scale lmbd Ik) = 3 * n" using sIk by simp
  obtain A where A: "bmat [[Some P], [Some (scale lmbd Ik)]] = Inr A"
    and sA: "nrows A = nrows P + 3 * length idxs" "ncols A = 3 * n"
    using stack_value [OF P c] sIk by simp
  have t: "take_rows dv idxs = Inr (map (\<lambda>idx. dv ! wrap_index n idx) idxs)"
    using take_rows_ok [of idxs dv] idxs dv by simp
  show ?thesis
    using A sA by (simp add: lstsq_system_def I Ik t)
qed

lemma lstsq_system_bad:
  assumes "\<exists>idx \<in> set idxs. idx < - int n \<or> int n \<le> idx"
  shows "lstsq_system P n idxs dv lmbd = Inl IndexError"
  by (simp add: lstsq_system_def constraint_I_bad [OF assms])

subsection \<open>Matrix-vector products\<close>

lemma length_mv [simp]: "length (mv M xs) = nrows M"
  by (simp add: mv_def)

lemma mv_nth: "i < nrows M \<Longrightarrow> mv M xs ! i = (\<Sum>j<ncols M. entry M i j * xs ! j)"
  by (simp add: mv_def)

lemma mv_scale: "mv (scale c M) xs = scale_vec c (mv M xs)"
  by (simp add: mv_def scale_vec_def sum_distrib_left mult.assoc)

lemma mv_stack:
  assumes "ncols P = w" "ncols L = w" "bmat [[Some P], [Some L]] = Inr A"
  shows "mv A xs = mv P xs @ mv L xs"
proof -
  have d: "nrows A = nrows P + nrows L" "ncols A = w"
    using assms(3) unfolding stack_value [OF assms(1,2)] by auto
  note e = stack_entry [OF assms]
  have "[0..<nrows P + nrows L] = [0..<nrows P] @ [nrows P..<nrows P + nrows L]"
    by (rule upt_add_eq_append) simp
  also have "[nrows P..<nrows P + nrows L] = map (\<lambda>i. i + nrows P) [0..<nrows L]"
    by (simp add: map_add_upt add.commute)
  finally have "[0..<nrows P + nrows L] = [0..<nrows P] @ map (\<lambda>i. i + nrows P) [0..<nrows L]" .
  then show ?thesis
    by (simp add: mv_def d e assms(1,2) comp_def)
qed

lemma lstsq_system_ok:
  assumes P: "ncols P = 3 * n"
    and idxs: "\<forall>idx \<in> set idxs. - int n \<le> idx \<and> idx < int n"
    and dv: "length dv = n"
  shows "\<exists>I Ik A. constraint_I n idxs = Inr I \<and> constraint_Ik I = Inr Ik
     \<and> nrows I = length idxs \<and> ncols I = n
     \<and> nrows Ik = 3 * length idxs \<and> ncols Ik = 3 * n
     \<and> lstsq_system P n idxs dv lmbd
       = Inr (A, zeros (nrows P)
                 @ scale_vec lmbd (flatten F_order (map (\<lambda>idx. dv ! wrap_index n idx) idxs)))
     \<and> bmat [[Some P], [Some (scale lmbd Ik)]] = Inr A
     \<and> nrows A = nrows P + 3 * length idxs \<and> ncols A = 3 * n"
proof -
  obtain I where I: "constraint_I n idxs = Inr I" "nrows I = length idxs" "ncols I = n"
    using constraint_I_ok [OF idxs] by blast
  obtain Ik where Ik: "constraint_Ik I = Inr Ik" "nrows Ik = 3 * length idxs" "ncols Ik = 3 * n"
    using constraint_Ik_value [OF I(2,3)] by simp
  from lstsq_system_value [OF P idxs dv I(1) Ik(1)] I Ik show ?thesis by blast
qed

lemma solve_ok:
  assumes P: "ncols P = 3 * n"
    and idxs: "\<forall>idx \<in> set idxs. - int n \<le> idx \<and> idx < int n"
    and dv: "length dv = n"
  shows "\<exists>A b. lstsq_system P n idxs dv lmbd = Inr (A, b) \<and> ncols A = 3 * n
     \<and> solve solver P n idxs dv lmbd = reshape (sol_x (solver A b)) (n, 3) F_order"
proof -
  obtain A b where "lstsq_system P n idxs dv lmbd = Inr (A, b)" "ncols A = 3 * n"
    using lstsq_system_ok [OF assms] by blast
  then show ?thesis by (simp add: solve_def)
qed




subsection \<open>The block order of \<open>b\<close> and \<open>du\<close>\<close>

text \<open>
  Claim C3. The two lines of the notebook that pass between arrays and flat vectors,
  \<open>b = \<dots> dv[idxs].flatten(order='F')\<close> in \<open>lstsq_system\<close> and
  \<open>du = sol[0].reshape(v.shape, order='F')\<close> in \<open>solve\<close>, use the same block order:
  component \<open>j\<close> of the \<open>i\<close>-th target sits at position \<open>j * k + i\<close> of the constraint part
  of \<open>b\<close>, and component \<open>j\<close> of vertex \<open>i\<close> of \<open>du\<close> is read from position \<open>j * n + i\<close> of
  the iterate. So when every vertex is constrained in order, the weight is 1 and the
  iterate is the constraint part of \<open>b\<close>, the solve gives back the array \<open>dv\<close> it
  flattened, for every \<open>n \<times> 3\<close> array \<open>dv\<close>.
\<close>

theorem b_and_du_share_block_order:
  assumes P: "ncols P = 3 * n"
    and idxs: "\<forall>idx \<in> set idxs. 0 \<le> idx \<and> idx < int n"
    and dv: "length dv = n" "\<forall>r \<in> set dv. length r = 3"
    and solver: "\<forall>A b. length (sol_x (solver A b)) = ncols A"
  shows "\<exists>A b du. lstsq_system P n idxs dv lmbd = Inr (A, b)
     \<and> solve solver P n idxs dv lmbd = Inr du
     \<and> (\<forall>j < 3. \<forall>i < length idxs.
           b ! (nrows P + j * length idxs + i) = lmbd * dv ! nat (idxs ! i) ! j)
     \<and> (\<forall>j < 3. \<forall>i < n. du ! i ! j = sol_x (solver A b) ! (j * n + i))
     \<and> (idxs = map int [0..<n] \<and> lmbd = 1 \<and> sol_x (solver A b) = drop (nrows P) b
          \<longrightarrow> du = dv)"
proof -
  have idxs': "\<forall>idx \<in> set idxs. - int n \<le> idx \<and> idx < int n" using idxs by auto
  let ?k = "length idxs"
  let ?t = "map (\<lambda>idx. dv ! nat idx) idxs"
  have t: "map (\<lambda>idx. dv ! wrap_index n idx) idxs = ?t"
    using idxs by (simp add: wrap_index_nat)
  obtain A where sys: "lstsq_system P n idxs dv lmbd
       = Inr (A, zeros (nrows P) @ scale_vec lmbd (flatten F_order ?t))"
    and sA: "ncols A = 3 * n"
    using lstsq_system_ok [OF P idxs' dv(1), of lmbd] unfolding t by blast
  let ?b = "zeros (nrows P) @ scale_vec lmbd (flatten F_order ?t)"
  let ?x = "sol_x (solver A ?b)"
  let ?du = "map (\<lambda>i. map (\<lambda>j. ?x ! (j * n + i)) [0..<3]) [0..<n]"
  have rows: "\<forall>r \<in> set ?t. length r = 3" using idxs dv by auto
  have lt: "length (flatten F_order ?t) = 3 * ?k"
    using length_flatten_F [OF rows] by simp
  have lx: "length ?x = n * 3" using solver sA by simp
  have r: "reshape ?x (n, 3) F_order = Inr ?du" by (rule reshape_F [OF lx])
  then have du: "solve solver P n idxs dv lmbd = Inr ?du"
    by (simp add: solve_def sys)
  have bi: "?b ! (nrows P + j * ?k + i) = lmbd * dv ! nat (idxs ! i) ! j"
    if "j < 3" "i < ?k" for i j
  proof -
    have "j * ?k + i < 3 * ?k" using that by (rule mult_index_bound)
    then have "?b ! (nrows P + j * ?k + i) = lmbd * flatten F_order ?t ! (j * ?k + i)"
      by (simp add: nth_append zeros_def scale_vec_def lt add.assoc)
    also have "flatten F_order ?t ! (j * length ?t + i) = ?t ! i ! j"
      using that by (intro flatten_F_nth [OF rows]) simp_all
    then have "flatten F_order ?t ! (j * ?k + i) = dv ! nat (idxs ! i) ! j"
      using that by simp
    finally show ?thesis .
  qed
  have di: "?du ! i ! j = ?x ! (j * n + i)" if "j < 3" "i < n" for i j
    using that by simp
  have rt: "?du = dv"
    if "idxs = map int [0..<n]" "lmbd = 1" "?x = drop (nrows P) ?b"
  proof -
    have "?t = map (\<lambda>i. dv ! i) [0..<length dv]"
      unfolding that(1) dv(1) by (simp add: comp_def)
    then have "?t = dv" by (simp only: map_nth)
    then have "?x = flatten F_order dv"
      using that(2,3) by (simp add: zeros_def scale_vec_def)
    then have "reshape ?x (length dv, 3) F_order = Inr dv"
      using reshape_flatten_F [OF dv(2)] by simp
    with r dv(1) show ?thesis by simp
  qed
  show ?thesis
    using sys du bi di rt
    by (intro exI [of _ A] exI [of _ ?b] exI [of _ ?du]) blast
qed

theorem b_and_du_share_block_order_witness:
  "\<exists>A b. lstsq_system (csr_matrix (6, 6)) 2 [0, 1] [[1, 2, 3], [4, 5, 6]] 1 = Inr (A, b)
     \<and> b = [0, 0, 0, 0, 0, 0, 1, 4, 2, 5, 3, 6]
     \<and> solve (\<lambda>A b. \<lparr>sol_x = take (ncols A) (drop (length b - ncols A) b @ replicate (ncols A) 0),
                      istop = 1, itn = 1, r1norm = 0\<rparr>)
          (csr_matrix (6, 6)) 2 [0, 1] [[1, 2, 3], [4, 5, 6]] 1 = Inr [[1, 2, 3], [4, 5, 6]]"
proof -
  let ?P = "csr_matrix (6, 6)"
  let ?dv = "[[1, 2, 3], [4, 5, 6 :: real]]"
  let ?solver = "\<lambda>(A :: smat) (b :: real list).
     \<lparr>sol_x = take (ncols A) (drop (length b - ncols A) b @ replicate (ncols A) 0),
      istop = 1, itn = 1, r1norm = 0\<rparr>"
  have P: "ncols ?P = 3 * 2" "nrows ?P = 6" by (simp_all add: csr_matrix_def)
  have idxs: "\<forall>idx \<in> set [0, 1 :: int]. 0 \<le> idx \<and> idx < int 2" by simp
  have idxs': "\<forall>idx \<in> set [0, 1 :: int]. - int 2 \<le> idx \<and> idx < int 2" by simp
  have dv: "length ?dv = 2" "\<forall>r \<in> set ?dv. length r = 3" by simp_all
  have solver: "\<forall>A b. length (sol_x (?solver A b)) = ncols A" by simp
  have all: "[0, 1] = map int [0..<2]" by (simp add: upt_rec)
  obtain A' where "lstsq_system ?P 2 [0, 1] ?dv 1
       = Inr (A', zeros (nrows ?P)
                 @ scale_vec 1 (flatten F_order (map (\<lambda>idx. ?dv ! wrap_index 2 idx) [0, 1])))"
    "ncols A' = 3 * 2"
    using lstsq_system_ok [OF P(1) idxs' dv(1), of 1] by blast
  moreover have "replicate 6 (0 :: real) = [0, 0, 0, 0, 0, 0]"
    by (simp add: eval_nat_numeral)
  ultimately have sys': "lstsq_system ?P 2 [0, 1] ?dv 1 = Inr (A', [0, 0, 0, 0, 0, 0, 1, 4, 2, 5, 3, 6])"
    and sA': "ncols A' = 6"
    by (simp_all add: P(2) zeros_def scale_vec_def wrap_index_def flatten_def row_len_def upt_3)
  from b_and_du_share_block_order [OF P(1) idxs dv solver, of 1]
  obtain A b du where sys: "lstsq_system ?P 2 [0, 1] ?dv 1 = Inr (A, b)"
    and du: "solve ?solver ?P 2 [0, 1] ?dv 1 = Inr du"
    and rt: "[0, 1] = map int [0..<2] \<and> (1 :: real) = 1
          \<and> sol_x (?solver A b) = drop (nrows ?P) b \<longrightarrow> du = ?dv"
    by blast
  from sys sys' have A: "A = A'" and b: "b = [0, 0, 0, 0, 0, 0, 1, 4, 2, 5, 3, 6]" by simp_all
  have "sol_x (?solver A b) = drop (nrows ?P) b"
    unfolding A b P(2) by (simp add: sA')
  with rt all have "du = ?dv" by blast
  with sys du b show ?thesis by blast
qed

subsection \<open>Errors of the solve\<close>

text \<open>
  Claim C6, as the notebook has it. The notebook defines no error of its own and checks
  nothing before it indexes. A constrained id outside \<open>[-n, n)\<close> makes the loop that fills
  \<open>I\<close> raise IndexError, before \<open>A\<close> and \<open>b\<close> exist and whatever the solver is. An id in
  \<open>[-n, n)\<close> raises nothing: a negative one counts from the end and selects vertex
  \<open>n + id\<close>, and the system is assembled. Faces are handed to \<open>igl.grad\<close> unchecked; what
  that call does with a bad face is outside the notebook.
\<close>

theorem constraint_ids_checked_by_indexing:
  assumes "ncols P = 3 * n" "length dv = n"
  shows "((\<exists>idx \<in> set idxs. idx < - int n \<or> int n \<le> idx) \<longrightarrow>
            constraint_I n idxs = Inl IndexError
          \<and> lstsq_system P n idxs dv lmbd = Inl IndexError
          \<and> (\<forall>solver. solve solver P n idxs dv lmbd = Inl IndexError))
       \<and> ((\<forall>idx \<in> set idxs. - int n \<le> idx \<and> idx < int n) \<longrightarrow>
            (\<exists>I A b. constraint_I n idxs = Inr I
               \<and> (\<forall>i < length idxs. \<forall>j < n.
                     entry I i j = (if j = wrap_index n (idxs ! i) then 1 else 0))
               \<and> lstsq_system P n idxs dv lmbd = Inr (A, b)))"
proof (intro conjI impI)
  assume bad: "\<exists>idx \<in> set idxs. idx < - int n \<or> int n \<le> idx"
  then show "constraint_I n idxs = Inl IndexError" by (rule constraint_I_bad)
  show "lstsq_system P n idxs dv lmbd = Inl IndexError"
    by (rule lstsq_system_bad [OF bad])
  show "\<forall>solver. solve solver P n idxs dv lmbd = Inl IndexError"
    by (simp add: solve_def lstsq_system_bad [OF bad])
next
  assume ok: "\<forall>idx \<in> set idxs. - int n \<le> idx \<and> idx < int n"
  obtain I where I: "constraint_I n idxs = Inr I"
    "\<forall>i < length idxs. \<forall>j < n. entry I i j = (if j = wrap_index n (idxs ! i) then 1 else 0)"
    using constraint_I_ok [OF ok] by blast
  obtain A b where "lstsq_system P n idxs dv lmbd = Inr (A, b)"
    using lstsq_system_ok [OF assms(1) ok assms(2)] by blast
  with I show "\<exists>I A b. constraint_I n idxs = Inr I
               \<and> (\<forall>i < length idxs. \<forall>j < n.
                     entry I i j = (if j = wrap_index n (idxs ! i) then 1 else 0))
               \<and> lstsq_system P n idxs dv lmbd = Inr (A, b)"
    by blast
qed

theorem constraint_ids_checked_by_indexing_witness:
  "constraint_I 2 [0, 2] = Inl IndexError
   \<and> solve (\<lambda>A b. \<lparr>sol_x = map (\<lambda>j. real j + 1) [0..<ncols A], istop = 1, itn = 4, r1norm = 0\<rparr>)
        (csr_matrix (6, 6)) 2 [0, 2] [[0, 0, 0], [1, 2, 3]] 100 = Inl IndexError
   \<and> (\<exists>I A b. constraint_I 2 [0, -2] = Inr I \<and> entry I 1 0 = 1 \<and> entry I 1 1 = 0
        \<and> lstsq_system (csr_matrix (6, 6)) 2 [0, -2] [[0, 0, 0], [1, 2, 3]] 100 = Inr (A, b))"
proof -
  let ?P = "csr_matrix (6, 6)"
  let ?dv = "[[0, 0, 0], [1, 2, 3 :: real]]"
  have a: "ncols ?P = 3 * 2" "length ?dv = 2" by (simp_all add: csr_matrix_def)
  have bad: "\<exists>idx \<in> set [0, 2 :: int]. idx < - int 2 \<or> int 2 \<le> idx" by simp
  have ok: "\<forall>idx \<in> set [0, - 2 :: int]. - int 2 \<le> idx \<and> idx < int 2" by simp
  note t = constraint_ids_checked_by_indexing [OF a]
  from t [of "[0, 2]" 100] bad
  have 1: "constraint_I 2 [0, 2] = Inl IndexError"
    and 2: "\<forall>solver. solve solver ?P 2 [0, 2] ?dv 100 = Inl IndexError"
    by blast+
  from t [of "[0, - 2]" 100] ok
  obtain I A b where I: "constraint_I 2 [0, - 2] = Inr I"
    and e: "\<forall>i < length [0, - 2 :: int]. \<forall>j < 2.
                     entry I i j = (if j = wrap_index 2 ([0, - 2] ! i) then 1 else 0)"
    and s: "lstsq_system ?P 2 [0, - 2] ?dv 100 = Inr (A, b)"
    by blast
  have "entry I 1 0 = 1" "entry I 1 1 = 0"
    using e [rule_format, of 1 0] e [rule_format, of 1 1] by (simp_all add: wrap_index_def)
  with 1 2 I s show ?thesis by blast
qed

text \<open>
  Claim C6 as the specification states it fails: the id \<open>-1\<close> is outside \<open>[0, 2)\<close>, and
  the notebook raises nothing. The constraint lands on vertex 1 and the solve returns
  a displacement field.
\<close>

theorem out_of_range_id_not_rejected:
  "\<not> (0 \<le> (- 1 :: int) \<and> (- 1 :: int) < int 2)
   \<and> (\<exists>I. constraint_I 2 [- 1] = Inr I \<and> entry I 0 1 = 1)
   \<and> (\<exists>P. killing_P \<lparr>nrows = 1, ncols = 2, ent = (\<lambda>i j. 3)\<rparr>
                      \<lparr>nrows = 1, ncols = 2, ent = (\<lambda>i j. 5)\<rparr>
                      \<lparr>nrows = 1, ncols = 2, ent = (\<lambda>i j. 7)\<rparr> = Inr P
        \<and> solve (\<lambda>A b. \<lparr>sol_x = map (\<lambda>j. real j + 1) [0..<ncols A], istop = 1, itn = 4, r1norm = 0\<rparr>)
             P 2 [- 1] [[0, 0, 0], [1, 2, 3]] 100 = Inr [[1, 3, 5], [2, 4, 6]])"
proof -
  let ?Gx = "\<lparr>nrows = 1, ncols = 2, ent = (\<lambda>i j. 3 :: real)\<rparr>"
  let ?Gy = "\<lparr>nrows = 1, ncols = 2, ent = (\<lambda>i j. 5 :: real)\<rparr>"
  let ?Gz = "\<lparr>nrows = 1, ncols = 2, ent = (\<lambda>i j. 7 :: real)\<rparr>"
  let ?dv = "[[0, 0, 0], [1, 2, 3 :: real]]"
  let ?solver = "\<lambda>(A :: smat) (b :: real list).
     \<lparr>sol_x = map (\<lambda>j. real j + 1) [0..<ncols A], istop = 1, itn = 4, r1norm = 0\<rparr>"
  have G: "nrows ?Gx = 1" "ncols ?Gx = 2" "nrows ?Gy = 1" "ncols ?Gy = 2" "nrows ?Gz = 1" "ncols ?Gz = 2"
    by simp_all
  obtain P where P: "killing_P ?Gx ?Gy ?Gz = Inr P" and sP: "ncols P = 3 * 2"
    using killing_P_value [OF G] by simp
  have ok: "\<forall>idx \<in> set [- 1 :: int]. - int 2 \<le> idx \<and> idx < int 2" by simp
  obtain I where I: "constraint_I 2 [- 1] = Inr I"
    and e: "\<forall>i < length [- 1 :: int]. \<forall>j < 2.
                     entry I i j = (if j = wrap_index 2 ([- 1] ! i) then 1 else 0)"
    using constraint_I_ok [OF ok] by blast
  have e1: "entry I 0 1 = 1" using e [rule_format, of 0 1] by (simp add: wrap_index_def)
  have dv: "length ?dv = 2" by simp
  obtain A b where "lstsq_system P 2 [- 1] ?dv 100 = Inr (A, b)" "ncols A = 3 * 2"
    "solve ?solver P 2 [- 1] ?dv 100 = reshape (sol_x (?solver A b)) (2, 3) F_order"
    using solve_ok [OF sP ok dv] by blast
  then have "solve ?solver P 2 [- 1] ?dv 100 = Inr [[1, 3, 5], [2, 4, 6]]"
    by (simp add: reshape_def upt_rec)
  with P I e1 show ?thesis by auto
qed

text \<open>
  Claim C7, as the notebook has it. The notebook reads only \<open>sol[0]\<close>. For valid inputs
  and a solver whose iterate has one entry per column of \<open>A\<close>, the solve returns the
  reshaped iterate and never an error, and it returns the same whatever stopping status
  \<open>s\<close> the solver reports: \<open>istop\<close> is not inspected.
\<close>

theorem solve_ignores_istop:
  assumes "ncols P = 3 * n"
    and "\<forall>idx \<in> set idxs. - int n \<le> idx \<and> idx < int n"
    and "length dv = n"
    and "\<forall>A b. length (sol_x (solver A b)) = ncols A"
  shows "\<exists>A b du. lstsq_system P n idxs dv lmbd = Inr (A, b)
     \<and> reshape (sol_x (solver A b)) (n, 3) F_order = Inr du
     \<and> solve solver P n idxs dv lmbd = Inr du
     \<and> solve (\<lambda>A b. (solver A b)\<lparr>istop := s\<rparr>) P n idxs dv lmbd = Inr du"
proof -
  obtain A b where sys: "lstsq_system P n idxs dv lmbd = Inr (A, b)" and sA: "ncols A = 3 * n"
    using lstsq_system_ok [OF assms(1-3)] by blast
  have "length (sol_x (solver A b)) = n * 3" using assms(4) sA by simp
  then obtain du where "reshape (sol_x (solver A b)) (n, 3) F_order = Inr du"
    using reshape_F by blast
  then show ?thesis using sys by (simp add: solve_def)
qed

theorem solve_ignores_istop_witness:
  "\<exists>A b. lstsq_system (csr_matrix (6, 6)) 2 [1] [[0, 0, 0], [1, 2, 3]] 100 = Inr (A, b)
     \<and> solve (\<lambda>A b. \<lparr>sol_x = map (\<lambda>j. real j + 1) [0..<ncols A], istop = 1, itn = 4, r1norm = 0\<rparr>)
          (csr_matrix (6, 6)) 2 [1] [[0, 0, 0], [1, 2, 3]] 100 = Inr [[1, 3, 5], [2, 4, 6]]
     \<and> solve (\<lambda>A b. \<lparr>sol_x = map (\<lambda>j. real j + 1) [0..<ncols A], istop = 7, itn = 4, r1norm = 0\<rparr>)
          (csr_matrix (6, 6)) 2 [1] [[0, 0, 0], [1, 2, 3]] 100 = Inr [[1, 3, 5], [2, 4, 6]]"
proof -
  let ?P = "csr_matrix (6, 6)"
  let ?dv = "[[0, 0, 0], [1, 2, 3 :: real]]"
  let ?solver = "\<lambda>(A :: smat) (b :: real list).
     \<lparr>sol_x = map (\<lambda>j. real j + 1) [0..<ncols A], istop = 1, itn = 4, r1norm = 0\<rparr>"
  have a: "ncols ?P = 3 * 2" "\<forall>idx \<in> set [1 :: int]. - int 2 \<le> idx \<and> idx < int 2"
    "length ?dv = 2" "\<forall>A b. length (sol_x (?solver A b)) = ncols A"
    by (simp_all add: csr_matrix_def)
  from solve_ignores_istop [OF a, of 100 7]
  obtain A b du where sys: "lstsq_system ?P 2 [1] ?dv 100 = Inr (A, b)"
    and r: "reshape (sol_x (?solver A b)) (2, 3) F_order = Inr du"
    and s1: "solve ?solver ?P 2 [1] ?dv 100 = Inr du"
    and s7: "solve (\<lambda>A b. (?solver A b)\<lparr>istop := 7\<rparr>) ?P 2 [1] ?dv 100 = Inr du"
    by blast
  obtain A' b' where "lstsq_system ?P 2 [1] ?dv 100 = Inr (A', b')" "ncols A' = 3 * 2"
    using lstsq_system_ok [OF a(1-3)] by blast
  with sys have "ncols A = 6" by simp
  with r have "du = [[1, 3, 5], [2, 4, 6]]" by (simp add: reshape_def upt_rec)
  with sys s1 s7 show ?thesis by auto
qed

text \<open>
  Claim C7 as the specification states it fails: a solver that stops at its iteration
  limit (\<open>istop = 7\<close>) with a large residual has its iterate returned as the
  displacement field, and nothing is reported.
\<close>

theorem nonconverged_iterate_returned:
  "\<exists>P. killing_P \<lparr>nrows = 1, ncols = 2, ent = (\<lambda>i j. 3)\<rparr>
                   \<lparr>nrows = 1, ncols = 2, ent = (\<lambda>i j. 5)\<rparr>
                   \<lparr>nrows = 1, ncols = 2, ent = (\<lambda>i j. 7)\<rparr> = Inr P
     \<and> solve (\<lambda>A b. \<lparr>sol_x = map (\<lambda>j. real j + 1) [0..<ncols A], istop = 7, itn = 12, r1norm = 50\<rparr>)
          P 2 [1] [[0, 0, 0], [1, 2, 3]] 100 = Inr [[1, 3, 5], [2, 4, 6]]"
proof -
  let ?Gx = "\<lparr>nrows = 1, ncols = 2, ent = (\<lambda>i j. 3 :: real)\<rparr>"
  let ?Gy = "\<lparr>nrows = 1, ncols = 2, ent = (\<lambda>i j. 5 :: real)\<rparr>"
  let ?Gz = "\<lparr>nrows = 1, ncols = 2, ent = (\<lambda>i j. 7 :: real)\<rparr>"
  let ?dv = "[[0, 0, 0], [1, 2, 3 :: real]]"
  let ?solver = "\<lambda>(A :: smat) (b :: real list).
     \<lparr>sol_x = map (\<lambda>j. real j + 1) [0..<ncols A], istop = 7, itn = 12, r1norm = 50\<rparr>"
  have G: "nrows ?Gx = 1" "ncols ?Gx = 2" "nrows ?Gy = 1" "ncols ?Gy = 2" "nrows ?Gz = 1" "ncols ?Gz = 2"
    by simp_all
  obtain P where P: "killing_P ?Gx ?Gy ?Gz = Inr P" and sP: "ncols P = 3 * 2"
    using killing_P_value [OF G] by simp
  have ok: "\<forall>idx \<in> set [1 :: int]. - int 2 \<le> idx \<and> idx < int 2" by simp
  have dv: "length ?dv = 2" by simp
  obtain A b where "lstsq_system P 2 [1] ?dv 100 = Inr (A, b)" "ncols A = 3 * 2"
    "solve ?solver P 2 [1] ?dv 100 = reshape (sol_x (?solver A b)) (2, 3) F_order"
    using solve_ok [OF sP ok dv] by blast
  then have "solve ?solver P 2 [1] ?dv 100 = Inr [[1, 3, 5], [2, 4, 6]]"
    by (simp add: reshape_def upt_rec)
  with P show ?thesis by auto
qed

section \<open>The energy evaluator\<close>

lemma sum_list_upt: "sum_list (map f [0..<n]) = (\<Sum>i<n. f i)"
  by (simp add: interv_sum_list_conv_sum_set_nat atLeast0LessThan)

lemma sum_list_nth: "sum_list (xs :: real list) = (\<Sum>i<length xs. xs ! i)"
  by (simp add: sum_list_sum_nth atLeast0LessThan)

lemma sum_blocks: "(\<Sum>i<r. \<Sum>j<c. g (j * r + i)) = (\<Sum>t<c * (r :: nat). (g t :: real))"
proof -
  have "(\<Sum>i<r. \<Sum>j<c. g (j * r + i)) = (\<Sum>j<c. \<Sum>i<r. g (j * r + i))"
    by (rule sum.swap)
  also have "\<dots> = (\<Sum>j<c. sum g {j * r..<j * r + r})"
  proof (rule sum.cong [OF refl])
    fix j
    have "sum g {0 + j * r..<r + j * r} = (\<Sum>i = 0..<r. g (i + j * r))"
      by (rule sum.shift_bounds_nat_ivl)
    then show "(\<Sum>i<r. g (j * r + i)) = sum g {j * r..<j * r + r}"
      by (simp add: atLeast0LessThan add.commute)
  qed
  also have "\<dots> = sum g {..<c * r}" by (rule sum.nat_group)
  finally show ?thesis .
qed

lemma reshape_infer_F:
  assumes "0 < r" "length xs = c * r"
  shows "reshape_infer xs r F_order = Inr (map (\<lambda>i. map (\<lambda>j. xs ! (j * r + i)) [0..<c]) [0..<r])"
  using assms by (simp add: reshape_infer_def reshape_def)

lemma square_nth: "t < length ys \<Longrightarrow> square ys ! t = ys ! t * ys ! t"
  by (simp add: square_def)

lemma e_K_value:
  assumes "nrows P = 6 * m" "length xs = ncols P" "0 < m"
  shows "e_K P xs m = Inr (map (\<lambda>i. \<Sum>j<6. square (mv P xs) ! (j * m + i)) [0..<m])"
proof -
  have "length (square (mv P xs)) = 6 * m" using assms(1) by (simp add: square_def)
  from reshape_infer_F [OF assms(3) this]
  show ?thesis using assms(2) by (simp add: e_K_def matvec_def sum_last_def comp_def sum_list_upt)
qed

lemma e_K_zero_faces: "e_K P xs 0 = Inl ValueError"
  by (simp add: e_K_def matvec_def reshape_infer_def)

lemma sqnorm_square: "sqnorm ys = sum_list (square ys)"
  by (simp add: sqnorm_def square_def)

lemma sqnorm_nonneg: "0 \<le> sqnorm ys"
  unfolding sqnorm_def by (induction ys) simp_all

lemma e_K_total:
  assumes "nrows P = 6 * m" "length xs = ncols P" "e_K P xs m = Inr e"
  shows "sum_list e = sqnorm (mv P xs)"
proof -
  have m: "0 < m" using assms(3) e_K_zero_faces [of P xs] by (cases m) auto
  let ?sq = "square (mv P xs)"
  have l: "length ?sq = 6 * m" using assms(1) by (simp add: square_def)
  have "e = map (\<lambda>i. \<Sum>j<6. ?sq ! (j * m + i)) [0..<m]"
    using e_K_value [OF assms(1,2) m] assms(3) by simp
  then have "sum_list e = (\<Sum>i<m. \<Sum>j<6. ?sq ! (j * m + i))"
    by (simp add: sum_list_upt)
  also have "\<dots> = (\<Sum>t<6 * m. ?sq ! t)" by (rule sum_blocks)
  also have "\<dots> = sum_list ?sq" using l by (simp add: sum_list_nth)
  finally show ?thesis by (simp add: sqnorm_square)
qed

lemma sum_6: "(\<Sum>j<6. f j) = f 0 + f 1 + f 2 + f 3 + f 4 + (f (5 :: nat) :: real)"
  by (simp add: eval_nat_numeral)

lemma upt_6: "[0..<6] = [0, 1, 2, 3, 4, 5]"
  by (simp add: upt_rec)

lemma sum_3: "(\<Sum>j<3. f j) = f 0 + f 1 + (f (2 :: nat) :: real)"
  by (simp add: eval_nat_numeral)

text \<open>
  Claim C5, as the notebook has it. For a mesh with at least one face, \<open>P\<close> of shape
  \<open>6m \<times> 3n\<close> and \<open>x\<close> of length \<open>3n\<close>, the evaluator returns \<open>m\<close> energies; the energy of face
  \<open>i\<close> is the sum of the squares of the entries \<open>i\<close>, \<open>m + i\<close>, \<open>2m + i\<close>, \<open>3m + i\<close>,
  \<open>4m + i\<close>, \<open>5m + i\<close> of \<open>P x\<close>, and it is not negative.
\<close>

theorem e_K_per_face:
  assumes "nrows P = 6 * m" "ncols P = 3 * n" "length xs = 3 * n" "0 < m"
  shows "\<exists>e. e_K P xs m = Inr e \<and> length e = m
     \<and> (\<forall>i < m. e ! i = (mv P xs ! i)\<^sup>2 + (mv P xs ! (m + i))\<^sup>2 + (mv P xs ! (2 * m + i))\<^sup>2
                       + (mv P xs ! (3 * m + i))\<^sup>2 + (mv P xs ! (4 * m + i))\<^sup>2
                       + (mv P xs ! (5 * m + i))\<^sup>2
                 \<and> 0 \<le> e ! i)"
proof -
  let ?y = "mv P xs"
  let ?e = "map (\<lambda>i. \<Sum>j<6. square ?y ! (j * m + i)) [0..<m]"
  have e: "e_K P xs m = Inr ?e"
    using assms by (intro e_K_value) simp_all
  have "?e ! i = (?y ! i)\<^sup>2 + (?y ! (m + i))\<^sup>2 + (?y ! (2 * m + i))\<^sup>2
                       + (?y ! (3 * m + i))\<^sup>2 + (?y ! (4 * m + i))\<^sup>2 + (?y ! (5 * m + i))\<^sup>2
        \<and> 0 \<le> ?e ! i" if "i < m" for i
  proof -
    have "j * m + i < length ?y" if "j < 6" for j
      using mult_index_bound [OF that \<open>i < m\<close>] assms(1) by simp
    then have "square ?y ! (j * m + i) = (?y ! (j * m + i))\<^sup>2" if "j < 6" for j
      using that by (simp add: square_nth power2_eq_square)
    then have "?e ! i = (\<Sum>j<6. (?y ! (j * m + i))\<^sup>2)"
      using \<open>i < m\<close> by simp
    then show ?thesis by (simp add: sum_6)
  qed
  with e show ?thesis by simp
qed

lemma example_P_mv:
  assumes "killing_P \<lparr>nrows = 1, ncols = 1, ent = (\<lambda>i j. 3)\<rparr>
                     \<lparr>nrows = 1, ncols = 1, ent = (\<lambda>i j. 5)\<rparr>
                     \<lparr>nrows = 1, ncols = 1, ent = (\<lambda>i j. 7)\<rparr> = Inr P"
  shows "nrows P = 6 * 1" and "ncols P = 3 * 1"
    and "mv P [1, 0, 0] = [6, 0, 0, sqrt 2 * 5, sqrt 2 * 7, 0]"
proof -
  let ?Gx = "\<lparr>nrows = 1, ncols = 1, ent = (\<lambda>i j. 3 :: real)\<rparr>"
  let ?Gy = "\<lparr>nrows = 1, ncols = 1, ent = (\<lambda>i j. 5 :: real)\<rparr>"
  let ?Gz = "\<lparr>nrows = 1, ncols = 1, ent = (\<lambda>i j. 7 :: real)\<rparr>"
  have G: "nrows ?Gx = 1" "ncols ?Gx = 1" "nrows ?Gy = 1" "ncols ?Gy = 1" "nrows ?Gz = 1" "ncols ?Gz = 1"
    by simp_all
  note sP = killing_P_shape [OF G assms]
  note e = killing_P_entry [OF G assms, simplified]
  show "nrows P = 6 * 1" and "ncols P = 3 * 1" by (rule sP)+
  show "mv P [1, 0, 0] = [6, 0, 0, sqrt 2 * 5, sqrt 2 * 7, 0]"
    using e [of 0 0 0 0] e [of 1 0 0 0] e [of 2 0 0 0] e [of 3 0 0 0] e [of 4 0 0 0] e [of 5 0 0 0]
    by (simp add: mv_def sP upt_6 sum_3 S_def entry_def [of "\<lparr>nrows = _, ncols = _, ent = _\<rparr>"])
qed

lemma example_P_exists:
  "\<exists>P. killing_P \<lparr>nrows = 1, ncols = 1, ent = (\<lambda>i j. 3)\<rparr>
                   \<lparr>nrows = 1, ncols = 1, ent = (\<lambda>i j. 5)\<rparr>
                   \<lparr>nrows = 1, ncols = 1, ent = (\<lambda>i j. 7)\<rparr> = Inr P"
  by (simp add: killing_P_value [of _ 1 1])

theorem e_K_per_face_witness:
  "\<exists>P. killing_P \<lparr>nrows = 1, ncols = 1, ent = (\<lambda>i j. 3)\<rparr>
                   \<lparr>nrows = 1, ncols = 1, ent = (\<lambda>i j. 5)\<rparr>
                   \<lparr>nrows = 1, ncols = 1, ent = (\<lambda>i j. 7)\<rparr> = Inr P
     \<and> mv P [1, 0, 0] = [6, 0, 0, sqrt 2 * 5, sqrt 2 * 7, 0]
     \<and> e_K P [1, 0, 0] 1 = Inr [184]"
proof -
  obtain P where P: "killing_P \<lparr>nrows = 1, ncols = 1, ent = (\<lambda>i j. 3)\<rparr>
                   \<lparr>nrows = 1, ncols = 1, ent = (\<lambda>i j. 5)\<rparr>
                   \<lparr>nrows = 1, ncols = 1, ent = (\<lambda>i j. 7)\<rparr> = Inr P"
    using example_P_exists by blast
  note sP = example_P_mv(1,2) [OF P]
  note y = example_P_mv(3) [OF P]
  have x: "length [1, 0, 0 :: real] = 3 * 1" by simp
  from e_K_per_face [OF sP x]
  obtain e where "e_K P [1, 0, 0] 1 = Inr e" "length e = 1"
    "e ! 0 = (mv P [1, 0, 0] ! 0)\<^sup>2 + (mv P [1, 0, 0] ! (1 + 0))\<^sup>2
         + (mv P [1, 0, 0] ! (2 * 1 + 0))\<^sup>2 + (mv P [1, 0, 0] ! (3 * 1 + 0))\<^sup>2
         + (mv P [1, 0, 0] ! (4 * 1 + 0))\<^sup>2 + (mv P [1, 0, 0] ! (5 * 1 + 0))\<^sup>2"
    by auto
  moreover from this have "e = [184]"
    unfolding y by (cases e) (simp_all add: power_mult_distrib)
  ultimately show ?thesis using P y by auto
qed

text \<open>
  Claim C5 as the specification states it fails for a mesh without faces: with \<open>m = 0\<close>
  the product \<open>P x\<close> is empty and \<open>reshape(0, -1)\<close> cannot infer the second dimension, so
  the evaluator raises ValueError instead of returning an array of length 0.
\<close>

theorem e_K_no_faces_raises:
  "\<exists>P. killing_P (csr_matrix (0, 1)) (csr_matrix (0, 1)) (csr_matrix (0, 1)) = Inr P
     \<and> nrows P = 0 \<and> ncols P = 3 \<and> e_K P [1, 0, 0] 0 = Inl ValueError"
proof -
  let ?G = "csr_matrix (0, 1)"
  have G: "nrows ?G = 0" "ncols ?G = 1" by (simp_all add: csr_matrix_def)
  obtain P where P: "killing_P ?G ?G ?G = Inr P"
    using killing_P_value [OF G G G] by simp
  from killing_P_shape [OF G G G P] P e_K_zero_faces [of P "[1, 0, 0]"]
  show ?thesis by simp
qed


text \<open>
  Claim C10. For \<open>P\<close> of shape \<open>6m \<times> 3n\<close> and \<open>x\<close> of length \<open>3n\<close>: whenever the evaluator
  returns the per-face energies, their sum is the squared 2-norm of \<open>P x\<close>; and it does
  return them for every mesh with a face.
\<close>

theorem e_K_sums_to_energy:
  assumes "nrows P = 6 * m" "ncols P = 3 * n" "length xs = 3 * n"
  shows "(0 < m \<longrightarrow> (\<exists>e. e_K P xs m = Inr e))
       \<and> (\<forall>e. e_K P xs m = Inr e \<longrightarrow> sum_list e = sqnorm (mv P xs))"
proof -
  have x: "length xs = ncols P" using assms by simp
  show ?thesis
    using e_K_value [OF assms(1) x] e_K_total [OF assms(1) x] by simp
qed

theorem e_K_sums_to_energy_witness:
  "\<exists>P e. killing_P \<lparr>nrows = 1, ncols = 1, ent = (\<lambda>i j. 3)\<rparr>
                     \<lparr>nrows = 1, ncols = 1, ent = (\<lambda>i j. 5)\<rparr>
                     \<lparr>nrows = 1, ncols = 1, ent = (\<lambda>i j. 7)\<rparr> = Inr P
     \<and> e_K P [1, 0, 0] 1 = Inr e
     \<and> sum_list e = 184 \<and> sqnorm (mv P [1, 0, 0]) = 184"
proof -
  obtain P where P: "killing_P \<lparr>nrows = 1, ncols = 1, ent = (\<lambda>i j. 3)\<rparr>
                   \<lparr>nrows = 1, ncols = 1, ent = (\<lambda>i j. 5)\<rparr>
                   \<lparr>nrows = 1, ncols = 1, ent = (\<lambda>i j. 7)\<rparr> = Inr P"
    using example_P_exists by blast
  note sP = example_P_mv(1,2) [OF P]
  note y = example_P_mv(3) [OF P]
  have x: "length [1, 0, 0 :: real] = 3 * 1" by simp
  have n: "sqnorm (mv P [1, 0, 0]) = 184" unfolding y by (simp add: sqnorm_def)
  from e_K_sums_to_energy [OF sP x]
  obtain e where "e_K P [1, 0, 0] 1 = Inr e" "sum_list e = sqnorm (mv P [1, 0, 0])"
    by auto
  with P n show ?thesis by auto
qed

section \<open>Least squares\<close>

lemma sqnorm_zero_iff: "sqnorm xs = 0 \<longleftrightarrow> xs = zeros (length xs)"
proof (induction xs)
  case Nil
  then show ?case by (simp add: sqnorm_def zeros_def)
next
  case (Cons x xs)
  have "0 \<le> sqnorm xs" by (rule sqnorm_nonneg)
  moreover have "0 \<le> x * x" by simp
  ultimately have "x * x + sqnorm xs = 0 \<longleftrightarrow> x = 0 \<and> sqnorm xs = 0"
    by (auto simp add: add_nonneg_eq_0_iff)
  then show ?case using Cons.IH by (simp add: sqnorm_def zeros_def)
qed

lemma sqnorm_zeros [simp]: "sqnorm (zeros n) = 0"
  by (simp add: sqnorm_zero_iff zeros_def)

lemma mv_zeros: "mv M (zeros (ncols M)) = zeros (nrows M)"
  by (simp add: mv_def zeros_def map_replicate_const)

lemma residual_zeros: "residual A (zeros (nrows A)) (zeros (ncols A)) = zeros (nrows A)"
  by (simp add: residual_def mv_zeros) (simp add: zeros_def zip_replicate map_replicate_const)

lemma zero_is_lsq: "is_lsq A (zeros (nrows A)) (zeros (ncols A))"
  by (simp add: is_lsq_def residual_zeros sqnorm_nonneg) (simp add: zeros_def)

lemma zero_is_min_norm_lsq: "is_min_norm_lsq A (zeros (nrows A)) (zeros (ncols A))"
  by (simp add: is_min_norm_lsq_def zero_is_lsq sqnorm_nonneg)

lemma min_norm_lsq_homogeneous:
  assumes "is_min_norm_lsq A (zeros (nrows A)) xs"
  shows "xs = zeros (ncols A)"
proof -
  have "sqnorm xs \<le> sqnorm (zeros (ncols A))"
    using assms zero_is_lsq [of A] unfolding is_min_norm_lsq_def by blast
  then have "sqnorm xs = 0" using sqnorm_nonneg [of xs] by simp
  then have "xs = zeros (length xs)" by (simp add: sqnorm_zero_iff)
  moreover have "length xs = ncols A"
    using assms by (simp add: is_min_norm_lsq_def is_lsq_def)
  ultimately show ?thesis by simp
qed

lemma reshape_zeros: "reshape (zeros (3 * n)) (n, 3) F_order = Inr (replicate n [0, 0, 0])"
proof -
  have "j * n + i < 3 * n" if "i < n" "j < 3" for i j
    using mult_index_bound [OF that(2,1)] .
  then have "map (\<lambda>i. map (\<lambda>j. zeros (3 * n) ! (j * n + i)) [0..<3]) [0..<n]
      = map (\<lambda>i. [0, 0, 0]) [0..<n]"
    by (simp add: zeros_def upt_3)
  then show ?thesis
    using reshape_F [of "zeros (3 * n)" n 3] by (simp add: zeros_def map_replicate_const)
qed

lemma rigid_motion_zero: "length v = n \<Longrightarrow> rigid_motion v (replicate n [0, 0, 0])"
  unfolding rigid_motion_def
  by (intro exI [of _ "[0, 0, 0]"]) (simp add: rigid_field_def map_replicate_const)

lemma e_K_zeros:
  assumes "nrows P = 6 * m" "0 < m"
  shows "e_K P (zeros (ncols P)) m = Inr (zeros m)"
proof -
  have l: "length (zeros (ncols P)) = ncols P" by (simp add: zeros_def)
  have "j * m + i < 6 * m" if "i < m" "j < 6" for i j
    using mult_index_bound [OF that(2,1)] .
  then have "(\<Sum>j<6. square (zeros (6 * m)) ! (j * m + i)) = 0" if "i < m" for i
    using that by (simp add: square_def zeros_def)
  then have "map (\<lambda>i. \<Sum>j<6. square (zeros (6 * m)) ! (j * m + i)) [0..<m] = map (\<lambda>i. 0) [0..<m]"
    by simp
  then show ?thesis
    using e_K_value [OF assms(1) l assms(2)]
    by (simp add: mv_zeros assms(1) map_replicate_const) (simp add: zeros_def)
qed


lemma lstsq_system_unconstrained:
  assumes "ncols P = 3 * n" "length dv = n" "lstsq_system P n [] dv lmbd = Inr (A, b)"
  shows "b = zeros (nrows A)" and "ncols A = 3 * n" and "nrows A = nrows P"
proof -
  have "\<forall>idx \<in> set ([] :: int list). - int n \<le> idx \<and> idx < int n" by simp
  from lstsq_system_ok [OF assms(1) this assms(2), of lmbd] assms(3)
  have "b = zeros (nrows P) @ scale_vec lmbd (flatten F_order [])
      \<and> nrows A = nrows P \<and> ncols A = 3 * n"
    by auto
  then show "b = zeros (nrows A)" and "ncols A = 3 * n" and "nrows A = nrows P"
    by (simp_all add: flatten_def row_len_def scale_vec_def)
qed

text \<open>
  Claim C8. With no constraints the right-hand side is zero. A minimum-norm
  least-squares solution of the assembled system is then the zero vector; reshaped, it
  is the zero displacement field, which is the rigid motion with zero translation and
  zero rotation; the Killing energy \<open>\<parallel>P x\<parallel>\<^sup>2\<close> at it is exactly 0, and so is every
  per-face energy that the evaluator returns.
\<close>

theorem unconstrained_solution_rigid:
  assumes G: "nrows Gx = m" "ncols Gx = n" "nrows Gy = m" "ncols Gy = n" "nrows Gz = m" "ncols Gz = n"
    and P: "killing_P Gx Gy Gz = Inr P"
    and v: "length v = n" and dv: "length dv = n"
    and sys: "lstsq_system P n [] dv lmbd = Inr (A, b)"
    and x: "is_min_norm_lsq A b xs"
  shows "(\<exists>du. reshape xs (n, 3) F_order = Inr du \<and> rigid_motion v du)
       \<and> sqnorm (mv P xs) = 0
       \<and> (0 < m \<longrightarrow> e_K P xs m = Inr (zeros m))"
proof -
  note sP = killing_P_shape [OF G P]
  note s = lstsq_system_unconstrained [OF sP(2) dv sys]
  have xs: "xs = zeros (3 * n)"
    using min_norm_lsq_homogeneous [of A xs] x s by simp
  then have xs': "xs = zeros (ncols P)" using sP by simp
  have "reshape xs (n, 3) F_order = Inr (replicate n [0, 0, 0])"
    unfolding xs by (rule reshape_zeros)
  moreover have "rigid_motion v (replicate n [0, 0, 0])"
    using v by (rule rigid_motion_zero)
  moreover have "sqnorm (mv P xs) = 0"
    unfolding xs' by (simp add: mv_zeros)
  moreover have "e_K P xs m = Inr (zeros m)" if "0 < m"
    unfolding xs' using sP(1) that by (rule e_K_zeros)
  ultimately show ?thesis by blast
qed

theorem unconstrained_solution_rigid_witness:
  "\<exists>P A b. killing_P \<lparr>nrows = 1, ncols = 1, ent = (\<lambda>i j. 3)\<rparr>
                       \<lparr>nrows = 1, ncols = 1, ent = (\<lambda>i j. 5)\<rparr>
                       \<lparr>nrows = 1, ncols = 1, ent = (\<lambda>i j. 7)\<rparr> = Inr P
     \<and> lstsq_system P 1 [] [[0, 0, 0]] 100 = Inr (A, b)
     \<and> is_min_norm_lsq A b [0, 0, 0]
     \<and> reshape [0, 0, 0 :: real] (1, 3) F_order = Inr [[0, 0, 0]]
     \<and> rigid_motion [[1, 2, 3]] [[0, 0, 0]]
     \<and> sqnorm (mv P [0, 0, 0]) = 0
     \<and> e_K P [0, 0, 0] 1 = Inr [0]"
proof -
  let ?Gx = "\<lparr>nrows = 1, ncols = 1, ent = (\<lambda>i j. 3 :: real)\<rparr>"
  let ?Gy = "\<lparr>nrows = 1, ncols = 1, ent = (\<lambda>i j. 5 :: real)\<rparr>"
  let ?Gz = "\<lparr>nrows = 1, ncols = 1, ent = (\<lambda>i j. 7 :: real)\<rparr>"
  have G: "nrows ?Gx = 1" "ncols ?Gx = 1" "nrows ?Gy = 1" "ncols ?Gy = 1" "nrows ?Gz = 1" "ncols ?Gz = 1"
    by simp_all
  obtain P where P: "killing_P ?Gx ?Gy ?Gz = Inr P"
    using example_P_exists by blast
  note sP = killing_P_shape [OF G P]
  have v: "length [[1, 2, 3 :: real]] = 1" and dv: "length [[0, 0, 0 :: real]] = 1" by simp_all
  have "\<forall>idx \<in> set ([] :: int list). - int 1 \<le> idx \<and> idx < int 1" by simp
  from lstsq_system_ok [OF sP(2) this dv, of 100]
  obtain A b where sys: "lstsq_system P 1 [] [[0, 0, 0]] 100 = Inr (A, b)" by blast
  note s = lstsq_system_unconstrained [OF sP(2) dv sys]
  have z: "zeros (ncols A) = [0, 0, 0]" using s(2) by (simp add: zeros_def eval_nat_numeral)
  have x: "is_min_norm_lsq A b [0, 0, 0]"
    using zero_is_min_norm_lsq [of A] unfolding s(1) z .
  from unconstrained_solution_rigid [OF G P v dv sys x]
  obtain du where du: "reshape [0, 0, 0 :: real] (1, 3) F_order = Inr du"
    "rigid_motion [[1, 2, 3]] du" "sqnorm (mv P [0, 0, 0]) = 0"
    "e_K P [0, 0, 0] 1 = Inr (zeros 1)"
    by auto
  from du(1) have "du = [[0, 0, 0]]" by (simp add: reshape_def upt_3)
  with du P sys x show ?thesis by (auto simp add: zeros_def)
qed

subsection \<open>The objective of the stacked system\<close>

lemma sqnorm_append: "sqnorm (us @ vs) = sqnorm us + sqnorm vs"
  by (simp add: sqnorm_def)

lemma sqnorm_Cons: "sqnorm (u # us) = u * u + sqnorm us"
  by (simp add: sqnorm_def)

lemma sqnorm_scale_vec: "sqnorm (scale_vec c us) = c * c * sqnorm us"
  by (induction us) (simp_all add: sqnorm_def scale_vec_def algebra_simps)

lemma sqnorm_nth: "sqnorm us = (\<Sum>i<length us. us ! i * us ! i)"
  by (simp add: sqnorm_def sum_list_nth)

lemma diff_zeros: "map2 (\<lambda>s t. s - t) us (zeros (length us)) = us"
  by (induction us) (simp_all add: zeros_def)

lemma diff_scale_vec:
  "map2 (\<lambda>s t. s - t) (scale_vec c us) (scale_vec c vs) = scale_vec c (map2 (\<lambda>s t. s - t) us vs)"
  by (simp add: scale_vec_def zip_map_map algebra_simps split_def)

lemma sqnorm_diff_eq_0:
  "length us = length vs \<Longrightarrow> sqnorm (map2 (\<lambda>s t. s - t) us vs) = 0 \<Longrightarrow> us = vs"
proof (induction us vs rule: list_induct2)
  case Nil
  then show ?case by simp
next
  case (Cons u us v vs)
  let ?d = "map2 (\<lambda>s t. s - t) us vs"
  have "(u - v) * (u - v) + sqnorm ?d = 0"
    using Cons.prems by (simp add: sqnorm_Cons)
  moreover have "0 \<le> sqnorm ?d" by (rule sqnorm_nonneg)
  moreover have "0 \<le> (u - v) * (u - v)" by simp
  ultimately have "(u - v) * (u - v) = 0 \<and> sqnorm ?d = 0"
    by (simp add: add_nonneg_eq_0_iff)
  then show ?case using Cons.IH by simp
qed

lemma sqnorm_midpoint:
  "length us = length vs \<Longrightarrow> length vs = length bs \<Longrightarrow>
   sqnorm (map2 (\<lambda>s t. s - t) (map2 (\<lambda>s t. (s + t) / 2) us vs) bs)
     = sqnorm (map2 (\<lambda>s t. s - t) us bs) / 2 + sqnorm (map2 (\<lambda>s t. s - t) vs bs) / 2
       - sqnorm (map2 (\<lambda>s t. s - t) us vs) / 4"
proof (induction us vs bs rule: list_induct3)
  case Nil
  then show ?case by (simp add: sqnorm_def)
next
  case (Cons u us v vs b bs)
  have "((u + v) / 2 - b) * ((u + v) / 2 - b)
      = (u - b) * (u - b) / 2 + (v - b) * (v - b) / 2 - (u - v) * (u - v) / 4"
    by (simp add: field_simps)
  then show ?case using Cons.IH by (simp add: sqnorm_Cons add_divide_distrib diff_divide_distrib)
qed

lemma mv_midpoint:
  assumes "length xs = ncols M" "length ys = ncols M"
  shows "mv M (map2 (\<lambda>s t. (s + t) / 2) xs ys) = map2 (\<lambda>s t. (s + t) / 2) (mv M xs) (mv M ys)"
proof (rule nth_equalityI)
  show "length (mv M (map2 (\<lambda>s t. (s + t) / 2) xs ys))
      = length (map2 (\<lambda>s t. (s + t) / 2) (mv M xs) (mv M ys))"
    by simp
next
  fix i
  assume "i < length (mv M (map2 (\<lambda>s t. (s + t) / 2) xs ys))"
  then have i: "i < nrows M" by simp
  have "(\<Sum>j<ncols M. entry M i j * map2 (\<lambda>s t. (s + t) / 2) xs ys ! j)
      = (\<Sum>j<ncols M. (entry M i j * xs ! j + entry M i j * ys ! j) / 2)"
    using assms by (intro sum.cong refl) (simp add: algebra_simps)
  also have "\<dots> = ((\<Sum>j<ncols M. entry M i j * xs ! j) + (\<Sum>j<ncols M. entry M i j * ys ! j)) / 2"
    by (simp add: sum.distrib sum_divide_distrib [symmetric])
  finally show "mv M (map2 (\<lambda>s t. (s + t) / 2) xs ys) ! i
      = map2 (\<lambda>s t. (s + t) / 2) (mv M xs) (mv M ys) ! i"
    using i by (simp add: mv_nth)
qed

lemma lstsq_objective:
  assumes P: "ncols P = 3 * n"
    and idxs: "\<forall>idx \<in> set idxs. - int n \<le> idx \<and> idx < int n"
    and dv: "length dv = n"
    and I: "constraint_I n idxs = Inr I" and Ik: "constraint_Ik I = Inr Ik"
    and sys: "lstsq_system P n idxs dv lmbd = Inr (A, b)"
  shows "sqnorm (residual A b xs)
     = sqnorm (mv P xs)
       + lmbd * lmbd * sqnorm (map2 (\<lambda>s t. s - t) (mv Ik xs)
           (flatten F_order (map (\<lambda>idx. dv ! wrap_index n idx) idxs)))"
proof -
  let ?t = "flatten F_order (map (\<lambda>idx. dv ! wrap_index n idx) idxs)"
  from lstsq_system_value [OF P idxs dv I Ik, of lmbd] sys
  have b: "b = zeros (nrows P) @ scale_vec lmbd ?t"
    and A: "bmat [[Some P], [Some (scale lmbd Ik)]] = Inr A"
    by auto
  obtain I' where "constraint_I n idxs = Inr I'" "nrows I' = length idxs" "ncols I' = n"
    using constraint_I_ok [OF idxs] by blast
  with I have sI: "nrows I = length idxs" "ncols I = n" by simp_all
  have "ncols Ik = 3 * n" using Ik unfolding constraint_Ik_value [OF sI] by auto
  then have c: "ncols (scale lmbd Ik) = 3 * n" by simp
  have "mv A xs = mv P xs @ scale_vec lmbd (mv Ik xs)"
    using mv_stack [OF P c A] by (simp add: mv_scale)
  then have "residual A b xs
      = map2 (\<lambda>s t. s - t) (mv P xs) (zeros (length (mv P xs)))
        @ map2 (\<lambda>s t. s - t) (scale_vec lmbd (mv Ik xs)) (scale_vec lmbd ?t)"
    unfolding residual_def b by (simp add: zeros_def)
  then show ?thesis
    unfolding diff_zeros diff_scale_vec by (simp add: sqnorm_append sqnorm_scale_vec)
qed

lemma mv_Ik_nth:
  assumes idxs: "\<forall>idx \<in> set idxs. - int n \<le> idx \<and> idx < int n"
    and I: "constraint_I n idxs = Inr I" and Ik: "constraint_Ik I = Inr Ik"
    and c: "c < 3" and i: "i < length idxs"
  shows "mv Ik xs ! (c * length idxs + i) = xs ! (c * n + wrap_index n (idxs ! i))"
proof -
  let ?k = "length idxs"
  let ?w = "wrap_index n (idxs ! i)"
  obtain I' where "constraint_I n idxs = Inr I'" "nrows I' = ?k" "ncols I' = n"
    "\<forall>i < ?k. \<forall>j < n. entry I' i j = (if j = wrap_index n (idxs ! i) then 1 else 0)"
    using constraint_I_ok [OF idxs] by blast
  with I have sI: "nrows I = ?k" "ncols I = n"
    and eI: "\<forall>i < ?k. \<forall>j < n. entry I i j = (if j = wrap_index n (idxs ! i) then 1 else 0)"
    by simp_all
  have sIk: "nrows Ik = 3 * ?k" "ncols Ik = 3 * n"
    using Ik unfolding constraint_Ik_value [OF sI] by auto
  have w: "?w < n" using idxs i by (intro wrap_index_less) simp_all
  have r: "c * ?k + i < nrows Ik" using mult_index_bound [OF c i] sIk by simp
  let ?g = "\<lambda>j. entry Ik (c * ?k + i) j * xs ! j"
  have e: "?g (c' * n + j) = (if c' = c \<and> j = ?w then xs ! (c * n + ?w) else 0)"
    if "c' < 3" "j < n" for c' j
    using constraint_Ik_entry [OF sI Ik c that(1) i that(2)] eI i that by auto
  have "mv Ik xs ! (c * ?k + i) = (\<Sum>t<3 * n. ?g t)"
    using r by (simp add: mv_nth sIk)
  also have "\<dots> = (\<Sum>j<n. \<Sum>c'<3. ?g (c' * n + j))"
    by (rule sum_blocks [symmetric])
  also have "\<dots> = (\<Sum>j<n. \<Sum>c'<3. if c' = c \<and> j = ?w then xs ! (c * n + ?w) else 0)"
    by (intro sum.cong refl) (simp add: e)
  also have "\<dots> = (\<Sum>j<n. if j = ?w then xs ! (c * n + ?w) else 0)"
    using c by (intro sum.cong refl) simp
  also have "\<dots> = xs ! (c * n + ?w)" using w by simp
  finally show ?thesis .
qed

lemma sum_list_map_nth: "sum_list (map f xs) = (\<Sum>i<length xs. (f (xs ! i) :: real))"
  using sum_list_nth [of "map f xs"] by simp

lemma constraint_violation_sum:
  "constraint_violation idxs dv du
     = (\<Sum>i<length idxs. \<Sum>c<3.
          (du ! nat (idxs ! i) ! c - dv ! nat (idxs ! i) ! c)
          * (du ! nat (idxs ! i) ! c - dv ! nat (idxs ! i) ! c))"
  unfolding constraint_violation_def sum_list_upt by (rule sum_list_map_nth)

lemma violation_as_residual:
  assumes idxs: "\<forall>idx \<in> set idxs. 0 \<le> idx \<and> idx < int n"
    and dv: "length dv = n" "\<forall>r \<in> set dv. length r = 3"
    and I: "constraint_I n idxs = Inr I" and Ik: "constraint_Ik I = Inr Ik"
    and du: "reshape xs (n, 3) F_order = Inr du"
  shows "sqnorm (map2 (\<lambda>s t. s - t) (mv Ik xs)
           (flatten F_order (map (\<lambda>idx. dv ! wrap_index n idx) idxs)))
       = constraint_violation idxs dv du"
proof -
  let ?k = "length idxs"
  let ?rows = "map (\<lambda>idx. dv ! wrap_index n idx) idxs"
  let ?t = "flatten F_order ?rows"
  let ?u = "mv Ik xs"
  let ?h = "\<lambda>r. (?u ! r - ?t ! r) * (?u ! r - ?t ! r)"
  have idxs': "\<forall>idx \<in> set idxs. - int n \<le> idx \<and> idx < int n" using idxs by auto
  obtain I' where "constraint_I n idxs = Inr I'" "nrows I' = ?k" "ncols I' = n"
    using constraint_I_ok [OF idxs'] by blast
  with I have sI: "nrows I = ?k" "ncols I = n" by simp_all
  have sIk: "nrows Ik = 3 * ?k"
    using Ik unfolding constraint_Ik_value [OF sI] by auto
  have rows: "\<forall>r \<in> set ?rows. length r = 3" using idxs dv by (auto simp add: wrap_index_nat)
  have lt: "length ?t = 3 * ?k" using length_flatten_F [OF rows] by simp
  have lx: "length xs = n * 3" using du by (auto simp add: reshape_def split: if_splits)
  have dun: "du ! w ! c = xs ! (c * n + w)" if "w < n" "c < 3" for w c
    using du that unfolding reshape_F [OF lx] by auto
  have h: "?h (c * ?k + i)
      = (du ! nat (idxs ! i) ! c - dv ! nat (idxs ! i) ! c)
        * (du ! nat (idxs ! i) ! c - dv ! nat (idxs ! i) ! c)"
    if "i < ?k" "c < 3" for i c
  proof -
    have "idxs ! i \<in> set idxs" using that(1) by simp
    with idxs have "0 \<le> idxs ! i" "idxs ! i < int n" by blast+
    then have w: "wrap_index n (idxs ! i) = nat (idxs ! i)" "nat (idxs ! i) < n"
      by (simp_all add: wrap_index_nat)
    have "?t ! (c * length ?rows + i) = ?rows ! i ! c"
      using that by (intro flatten_F_nth [OF rows]) simp_all
    then have "?t ! (c * ?k + i) = dv ! nat (idxs ! i) ! c"
      using that w by simp
    moreover have "?u ! (c * ?k + i) = du ! nat (idxs ! i) ! c"
      using mv_Ik_nth [OF idxs' I Ik that(2,1)] dun [OF w(2) that(2)] w by simp
    ultimately show ?thesis by simp
  qed
  have "sqnorm (map2 (\<lambda>s t. s - t) ?u ?t) = (\<Sum>r<3 * ?k. ?h r)"
    by (simp add: sqnorm_nth lt sIk)
  also have "\<dots> = (\<Sum>i<?k. \<Sum>c<3. ?h (c * ?k + i))"
    by (rule sum_blocks [symmetric])
  also have "\<dots> = (\<Sum>i<?k. \<Sum>c<3.
          (du ! nat (idxs ! i) ! c - dv ! nat (idxs ! i) ! c)
          * (du ! nat (idxs ! i) ! c - dv ! nat (idxs ! i) ! c))"
    by (intro sum.cong refl) (simp add: h)
  finally show ?thesis by (simp add: constraint_violation_sum)
qed

lemma lstsq_system_product:
  assumes P: "ncols P = 3 * n"
    and idxs: "\<forall>idx \<in> set idxs. 0 \<le> idx \<and> idx < int n"
    and dv: "length dv = n" "\<forall>r \<in> set dv. length r = 3"
    and I: "constraint_I n idxs = Inr I" and Ik: "constraint_Ik I = Inr Ik"
    and sys: "lstsq_system P n idxs dv lmbd = Inr (A, b)"
  shows "mv A xs = mv P xs @ scale_vec lmbd (mv Ik xs)"
    and "length b = nrows A" and "ncols A = 3 * n"
proof -
  let ?rows = "map (\<lambda>idx. dv ! wrap_index n idx) idxs"
  let ?t = "flatten F_order ?rows"
  have idxs': "\<forall>idx \<in> set idxs. - int n \<le> idx \<and> idx < int n" using idxs by auto
  from lstsq_system_value [OF P idxs' dv(1) I Ik, of lmbd] sys
  have b: "b = zeros (nrows P) @ scale_vec lmbd ?t"
    and A: "bmat [[Some P], [Some (scale lmbd Ik)]] = Inr A"
    and sA: "nrows A = nrows P + 3 * length idxs" "ncols A = 3 * n"
    by auto
  obtain I' where "constraint_I n idxs = Inr I'" "nrows I' = length idxs" "ncols I' = n"
    using constraint_I_ok [OF idxs'] by blast
  with I have sI: "nrows I = length idxs" "ncols I = n" by simp_all
  have "ncols Ik = 3 * n" using Ik unfolding constraint_Ik_value [OF sI] by auto
  then have c: "ncols (scale lmbd Ik) = 3 * n" by simp
  show "mv A xs = mv P xs @ scale_vec lmbd (mv Ik xs)"
    using mv_stack [OF P c A] by (simp add: mv_scale)
  have rows: "\<forall>r \<in> set ?rows. length r = 3" using idxs dv by (auto simp add: wrap_index_nat)
  have lt: "length ?t = 3 * length idxs" using length_flatten_F [OF rows] by simp
  show "length b = nrows A" unfolding b by (simp add: zeros_def scale_vec_def lt sA)
  show "ncols A = 3 * n" by (rule sA)
qed

lemma lsq_same_product:
  assumes x1: "is_lsq A b xs" and x2: "is_lsq A b ys" and b: "length b = nrows A"
  shows "mv A xs = mv A ys"
proof -
  let ?mid = "map2 (\<lambda>s t. (s + t) / 2) xs ys"
  let ?f = "\<lambda>zs. sqnorm (residual A b zs)"
  have l: "length xs = ncols A" "length ys = ncols A"
    using x1 x2 by (simp_all add: is_lsq_def)
  then have lm: "length ?mid = ncols A" by simp
  have m1: "?f xs \<le> ?f ?mid" using x1 lm unfolding is_lsq_def by blast
  have m2: "?f ys \<le> ?f ?mid" using x2 lm unfolding is_lsq_def by blast
  have "?f ?mid = ?f xs / 2 + ?f ys / 2 - sqnorm (map2 (\<lambda>s t. s - t) (mv A xs) (mv A ys)) / 4"
    unfolding residual_def mv_midpoint [OF l]
    by (rule sqnorm_midpoint) (simp_all add: b)
  with m1 m2 have "sqnorm (map2 (\<lambda>s t. s - t) (mv A xs) (mv A ys)) \<le> 0" by simp
  then have "sqnorm (map2 (\<lambda>s t. s - t) (mv A xs) (mv A ys)) = 0"
    using sqnorm_nonneg [of "map2 (\<lambda>s t. s - t) (mv A xs) (mv A ys)"] by simp
  then show ?thesis by (intro sqnorm_diff_eq_0) simp_all
qed

lemma tradeoff_monotone:
  fixes E1 E2 C1 C2 p q :: real
  assumes "E1 + p * C1 \<le> E2 + p * C2" "E2 + q * C2 \<le> E1 + q * C1" "p < q"
  shows "C2 \<le> C1"
proof -
  have "(q - p) * C2 \<le> (q - p) * C1" using assms(1,2) by (simp add: algebra_simps)
  then show ?thesis using assms(3) by simp
qed

text \<open>
  Claim C9. Fix the mesh operator \<open>P\<close>, the constrained ids and the targets, and take two
  weights \<open>0 < l1 \<le> l2\<close>. If \<open>x1\<close> minimises \<open>\<parallel>A x - b\<parallel>\<close> for the system assembled with
  \<open>l1\<close> and \<open>x2\<close> for the system assembled with \<open>l2\<close>, then the constraint violation of the
  displacement field of \<open>x2\<close> is at most that of \<open>x1\<close>. The violation is summed over
  the list of constrained ids, as the objective of the notebook does.
\<close>

theorem violation_monotone_in_weight:
  assumes G: "nrows Gx = m" "ncols Gx = n" "nrows Gy = m" "ncols Gy = n" "nrows Gz = m" "ncols Gz = n"
    and P: "killing_P Gx Gy Gz = Inr P"
    and idxs: "\<forall>idx \<in> set idxs. 0 \<le> idx \<and> idx < int n"
    and dv: "length dv = n" "\<forall>r \<in> set dv. length r = 3"
    and l: "0 < l1" "l1 \<le> l2"
    and sys1: "lstsq_system P n idxs dv l1 = Inr (A1, b1)"
    and sys2: "lstsq_system P n idxs dv l2 = Inr (A2, b2)"
    and x1: "is_lsq A1 b1 x1" and x2: "is_lsq A2 b2 x2"
    and du1: "reshape x1 (n, 3) F_order = Inr du1"
    and du2: "reshape x2 (n, 3) F_order = Inr du2"
  shows "constraint_violation idxs dv du2 \<le> constraint_violation idxs dv du1"
proof -
  note sP = killing_P_shape [OF G P]
  have idxs': "\<forall>idx \<in> set idxs. - int n \<le> idx \<and> idx < int n" using idxs by auto
  obtain I where I: "constraint_I n idxs = Inr I" "nrows I = length idxs" "ncols I = n"
    using constraint_I_ok [OF idxs'] by blast
  obtain Ik where Ik: "constraint_Ik I = Inr Ik"
    using constraint_Ik_value [OF I(2,3)] by simp
  let ?C = "\<lambda>du. constraint_violation idxs dv du"
  let ?E = "\<lambda>xs. sqnorm (mv P xs)"
  have obj1: "sqnorm (residual A1 b1 xs) = ?E xs + l1 * l1 * ?C du"
    if "reshape xs (n, 3) F_order = Inr du" for xs du
    using lstsq_objective [OF sP(2) idxs' dv(1) I(1) Ik sys1]
      violation_as_residual [OF idxs dv I(1) Ik that] by simp
  have obj2: "sqnorm (residual A2 b2 xs) = ?E xs + l2 * l2 * ?C du"
    if "reshape xs (n, 3) F_order = Inr du" for xs du
    using lstsq_objective [OF sP(2) idxs' dv(1) I(1) Ik sys2]
      violation_as_residual [OF idxs dv I(1) Ik that] by simp
  note p1 = lstsq_system_product [OF sP(2) idxs dv I(1) Ik sys1]
  note p2 = lstsq_system_product [OF sP(2) idxs dv I(1) Ik sys2]
  have lx: "length x1 = ncols A2" "length x2 = ncols A1"
    using x1 x2 p1(3) p2(3) by (simp_all add: is_lsq_def)
  have "sqnorm (residual A1 b1 x1) \<le> sqnorm (residual A1 b1 x2)"
    using x1 lx(2) unfolding is_lsq_def by blast
  then have a: "?E x1 + l1 * l1 * ?C du1 \<le> ?E x2 + l1 * l1 * ?C du2"
    by (simp add: obj1 [OF du1] obj1 [OF du2])
  have "sqnorm (residual A2 b2 x2) \<le> sqnorm (residual A2 b2 x1)"
    using x2 lx(1) unfolding is_lsq_def by blast
  then have b: "?E x2 + l2 * l2 * ?C du2 \<le> ?E x1 + l2 * l2 * ?C du1"
    by (simp add: obj2 [OF du1] obj2 [OF du2])
  show ?thesis
  proof (cases "l1 < l2")
    case True
    then have "l1 * l1 < l2 * l2" using l(1) by (intro mult_strict_mono) simp_all
    with a b show ?thesis by (rule tradeoff_monotone)
  next
    case False
    then have eq: "l2 = l1" using l(2) by simp
    then have same: "A2 = A1" "b2 = b1" using sys1 sys2 by simp_all
    have "mv A1 x1 = mv A1 x2"
      using x1 x2 p1(2) unfolding same by (rule lsq_same_product)
    then have "mv P x1 = mv P x2" unfolding p1(1) by simp
    then have "l1 * l1 * ?C du2 \<le> l1 * l1 * ?C du1" using b eq by simp
    moreover have "0 < l1 * l1" using l(1) by simp
    ultimately show ?thesis by (simp only: mult_le_cancel_left_pos)
  qed
qed

subsection \<open>A single face with one constrained vertex\<close>

lemma killing_P_single_face:
  assumes "killing_P \<lparr>nrows = 1, ncols = 1, ent = (\<lambda>i j. gx)\<rparr>
                     \<lparr>nrows = 1, ncols = 1, ent = (\<lambda>i j. gy)\<rparr>
                     \<lparr>nrows = 1, ncols = 1, ent = (\<lambda>i j. gz)\<rparr> = Inr P"
  shows "mv P [y0, y1, y2]
     = [2 * gx * y0, 2 * gy * y1, 2 * gz * y2,
        sqrt 2 * gy * y0 + sqrt 2 * gx * y1,
        sqrt 2 * gz * y0 + sqrt 2 * gx * y2,
        sqrt 2 * gz * y1 + sqrt 2 * gy * y2]"
proof -
  let ?Gx = "\<lparr>nrows = 1, ncols = 1, ent = (\<lambda>i j. gx)\<rparr>"
  let ?Gy = "\<lparr>nrows = 1, ncols = 1, ent = (\<lambda>i j. gy)\<rparr>"
  let ?Gz = "\<lparr>nrows = 1, ncols = 1, ent = (\<lambda>i j. gz)\<rparr>"
  have G: "nrows ?Gx = 1" "ncols ?Gx = 1" "nrows ?Gy = 1" "ncols ?Gy = 1" "nrows ?Gz = 1" "ncols ?Gz = 1"
    by simp_all
  note sP = killing_P_shape [OF G assms]
  note e = killing_P_entry [OF G assms, simplified]
  show ?thesis
    using e [of 0 0 0 0] e [of 1 0 0 0] e [of 2 0 0 0] e [of 3 0 0 0] e [of 4 0 0 0] e [of 5 0 0 0]
      e [of 0 1 0 0] e [of 1 1 0 0] e [of 2 1 0 0] e [of 3 1 0 0] e [of 4 1 0 0] e [of 5 1 0 0]
      e [of 0 2 0 0] e [of 1 2 0 0] e [of 2 2 0 0] e [of 3 2 0 0] e [of 4 2 0 0] e [of 5 2 0 0]
    by (simp add: mv_def sP upt_6 sum_3 S_def entry_def [of "\<lparr>nrows = _, ncols = _, ent = _\<rparr>"])
qed

lemma single_face_objective:
  assumes P: "killing_P \<lparr>nrows = 1, ncols = 1, ent = (\<lambda>i j. 1)\<rparr>
                        \<lparr>nrows = 1, ncols = 1, ent = (\<lambda>i j. 0)\<rparr>
                        \<lparr>nrows = 1, ncols = 1, ent = (\<lambda>i j. 0)\<rparr> = Inr P"
    and sys: "lstsq_system P 1 [0] [[1, 0, 0]] lmbd = Inr (A, b)"
  shows "sqnorm (residual A b [y0, y1, y2])
     = 4 * y0\<^sup>2 + 2 * y1\<^sup>2 + 2 * y2\<^sup>2 + lmbd\<^sup>2 * ((y0 - 1)\<^sup>2 + y1\<^sup>2 + y2\<^sup>2)"
    and "ncols A = 3"
proof -
  let ?Gx = "\<lparr>nrows = 1, ncols = 1, ent = (\<lambda>i j. 1 :: real)\<rparr>"
  let ?G0 = "\<lparr>nrows = 1, ncols = 1, ent = (\<lambda>i j. 0 :: real)\<rparr>"
  let ?dv = "[[1, 0, 0 :: real]]"
  have G: "nrows ?Gx = 1" "ncols ?Gx = 1" "nrows ?G0 = 1" "ncols ?G0 = 1" "nrows ?G0 = 1" "ncols ?G0 = 1"
    by simp_all
  note sP = killing_P_shape [OF G P]
  have idxs: "\<forall>idx \<in> set [0 :: int]. 0 \<le> idx \<and> idx < int 1" by simp
  have idxs': "\<forall>idx \<in> set [0 :: int]. - int 1 \<le> idx \<and> idx < int 1" by simp
  have dv: "length ?dv = 1" "\<forall>r \<in> set ?dv. length r = 3" by simp_all
  obtain I where I: "constraint_I 1 [0] = Inr I" "nrows I = length [0 :: int]" "ncols I = 1"
    using constraint_I_ok [OF idxs'] by blast
  obtain Ik where Ik: "constraint_Ik I = Inr Ik"
    using constraint_Ik_value [OF I(2,3)] by simp
  have du: "reshape [y0, y1, y2] (1, 3) F_order = Inr [[y0, y1, y2]]"
    by (simp add: reshape_def upt_3)
  have C: "constraint_violation [0] ?dv [[y0, y1, y2]] = (y0 - 1)\<^sup>2 + y1\<^sup>2 + y2\<^sup>2"
    by (simp add: constraint_violation_def upt_3 power2_eq_square)
  have E: "sqnorm (mv P [y0, y1, y2]) = 4 * y0\<^sup>2 + 2 * y1\<^sup>2 + 2 * y2\<^sup>2"
    unfolding killing_P_single_face [OF P]
    by (simp add: sqnorm_def power2_eq_square algebra_simps)
  show "sqnorm (residual A b [y0, y1, y2])
     = 4 * y0\<^sup>2 + 2 * y1\<^sup>2 + 2 * y2\<^sup>2 + lmbd\<^sup>2 * ((y0 - 1)\<^sup>2 + y1\<^sup>2 + y2\<^sup>2)"
    using lstsq_objective [OF sP(2) idxs' dv(1) I(1) Ik sys, of "[y0, y1, y2]"]
      violation_as_residual [OF idxs dv I(1) Ik du]
    by (simp add: C E power2_eq_square)
  show "ncols A = 3"
    using lstsq_system_product(3) [OF sP(2) idxs dv I(1) Ik sys] by simp
qed

lemma length_3E:
  assumes "length ys = 3"
  obtains y0 y1 y2 where "ys = [y0, y1, y2]"
  using assms by (auto simp add: eval_nat_numeral length_Suc_conv)

lemma single_face_lsq:
  assumes P: "killing_P \<lparr>nrows = 1, ncols = 1, ent = (\<lambda>i j. 1)\<rparr>
                        \<lparr>nrows = 1, ncols = 1, ent = (\<lambda>i j. 0)\<rparr>
                        \<lparr>nrows = 1, ncols = 1, ent = (\<lambda>i j. 0)\<rparr> = Inr P"
    and sys: "lstsq_system P 1 [0] [[1, 0, 0]] lmbd = Inr (A, b)"
  shows "is_lsq A b [lmbd\<^sup>2 / (4 + lmbd\<^sup>2), 0, 0]"
  unfolding is_lsq_def
proof (intro conjI allI impI)
  note obj = single_face_objective [OF P sys]
  show "length [lmbd\<^sup>2 / (4 + lmbd\<^sup>2), 0, 0] = ncols A" using obj(2) by simp
  fix ys :: "real list"
  assume "length ys = ncols A"
  then obtain y0 y1 y2 where ys: "ys = [y0, y1, y2]"
    using obj(2) by (auto elim: length_3E)
  define L where "L = lmbd\<^sup>2"
  define a where "a = L / (4 + L)"
  have L: "0 \<le> L" by (simp add: L_def)
  then have qa: "(4 + L) * a = L" by (simp add: a_def)
  have "4 * y0\<^sup>2 + L * (y0 - 1)\<^sup>2 - (4 * a\<^sup>2 + L * (a - 1)\<^sup>2)
      = (4 + L) * (y0 - a)\<^sup>2 + 2 * ((4 + L) * a - L) * (y0 - a)"
    by (simp add: algebra_simps power2_eq_square)
  then have d: "4 * y0\<^sup>2 + L * (y0 - 1)\<^sup>2 - (4 * a\<^sup>2 + L * (a - 1)\<^sup>2) = (4 + L) * (y0 - a)\<^sup>2"
    unfolding qa by simp
  have "sqnorm (residual A b ys) - sqnorm (residual A b [a, 0, 0])
      = (4 * y0\<^sup>2 + L * (y0 - 1)\<^sup>2 - (4 * a\<^sup>2 + L * (a - 1)\<^sup>2)) + (2 + L) * (y1\<^sup>2 + y2\<^sup>2)"
    unfolding ys obj(1) L_def [symmetric] by (simp add: algebra_simps)
  also have "\<dots> = (4 + L) * (y0 - a)\<^sup>2 + (2 + L) * (y1\<^sup>2 + y2\<^sup>2)"
    unfolding d ..
  also have "0 \<le> \<dots>"
    using L by (intro add_nonneg_nonneg mult_nonneg_nonneg) simp_all
  finally show "sqnorm (residual A b [lmbd\<^sup>2 / (4 + lmbd\<^sup>2), 0, 0]) \<le> sqnorm (residual A b ys)"
    unfolding a_def L_def by simp
qed


theorem violation_monotone_in_weight_witness:
  "\<exists>P A1 b1 A2 b2.
      killing_P \<lparr>nrows = 1, ncols = 1, ent = (\<lambda>i j. 1)\<rparr>
                \<lparr>nrows = 1, ncols = 1, ent = (\<lambda>i j. 0)\<rparr>
                \<lparr>nrows = 1, ncols = 1, ent = (\<lambda>i j. 0)\<rparr> = Inr P
    \<and> lstsq_system P 1 [0] [[1, 0, 0]] 2 = Inr (A1, b1)
    \<and> lstsq_system P 1 [0] [[1, 0, 0]] 6 = Inr (A2, b2)
    \<and> is_lsq A1 b1 [1 / 2, 0, 0] \<and> is_lsq A2 b2 [9 / 10, 0, 0]
    \<and> constraint_violation [0] [[1, 0, 0]] [[9 / 10, 0, 0]]
        \<le> constraint_violation [0] [[1, 0, 0]] [[1 / 2, 0, 0]]
    \<and> constraint_violation [0] [[1, 0, 0]] [[1 / 2, 0, 0]] = 1 / 4
    \<and> constraint_violation [0] [[1, 0, 0]] [[9 / 10, 0, 0]] = 1 / 100"
proof -
  let ?Gx = "\<lparr>nrows = 1, ncols = 1, ent = (\<lambda>i j. 1 :: real)\<rparr>"
  let ?G0 = "\<lparr>nrows = 1, ncols = 1, ent = (\<lambda>i j. 0 :: real)\<rparr>"
  let ?dv = "[[1, 0, 0 :: real]]"
  have G: "nrows ?Gx = 1" "ncols ?Gx = 1" "nrows ?G0 = 1" "ncols ?G0 = 1" "nrows ?G0 = 1" "ncols ?G0 = 1"
    by simp_all
  obtain P where P: "killing_P ?Gx ?G0 ?G0 = Inr P"
    using killing_P_value [OF G] by simp
  note sP = killing_P_shape [OF G P]
  have idxs: "\<forall>idx \<in> set [0 :: int]. 0 \<le> idx \<and> idx < int 1" by simp
  have idxs': "\<forall>idx \<in> set [0 :: int]. - int 1 \<le> idx \<and> idx < int 1" by simp
  have dv: "length ?dv = 1" "\<forall>r \<in> set ?dv. length r = 3" by simp_all
  obtain A1 b1 where sys1: "lstsq_system P 1 [0] ?dv 2 = Inr (A1, b1)"
    using lstsq_system_ok [OF sP(2) idxs' dv(1), of 2] by blast
  obtain A2 b2 where sys2: "lstsq_system P 1 [0] ?dv 6 = Inr (A2, b2)"
    using lstsq_system_ok [OF sP(2) idxs' dv(1), of 6] by blast
  have x1: "is_lsq A1 b1 [1 / 2, 0, 0]"
    using single_face_lsq [OF P sys1] by simp
  have x2: "is_lsq A2 b2 [9 / 10, 0, 0]"
    using single_face_lsq [OF P sys2] by simp
  have du1: "reshape [1 / 2, 0, 0 :: real] (1, 3) F_order = Inr [[1 / 2, 0, 0]]"
    and du2: "reshape [9 / 10, 0, 0 :: real] (1, 3) F_order = Inr [[9 / 10, 0, 0]]"
    by (simp_all add: reshape_def upt_3)
  have l: "0 < (2 :: real)" "(2 :: real) \<le> 6" by simp_all
  have "constraint_violation [0] ?dv [[9 / 10, 0, 0]] \<le> constraint_violation [0] ?dv [[1 / 2, 0, 0]]"
    by (rule violation_monotone_in_weight [OF G P idxs dv l sys1 sys2 x1 x2 du1 du2])
  moreover have "constraint_violation [0] ?dv [[1 / 2, 0, 0]] = 1 / 4"
    and "constraint_violation [0] ?dv [[9 / 10, 0, 0]] = 1 / 100"
    by (simp_all add: constraint_violation_def upt_3)
  ultimately show ?thesis using P sys1 sys2 x1 x2 by blast
qed


end
